theory Spec2Isabelle
  imports Main "HOL-Library.Char_ord" "HOL-Library.List_Lexorder"
begin

section \<open>Paths\<close>

text \<open>
  A \<open>pathlib.Path\<close> is modelled by the list of its components. Python compares two
  paths by comparing their component lists, and two strings by code point; both are the
  lexicographic orders that \<open>Char_ord\<close> and \<open>List_Lexorder\<close> give to \<open>string\<close> and to
  \<open>string list\<close> (the case-sensitive comparison of \<open>PurePosixPath\<close>).
\<close>

type_synonym path = "string list"

text \<open>\<open>p / s\<close> for a single component \<open>s\<close>.\<close>

definition joinpath :: "path \<Rightarrow> string \<Rightarrow> path" where
  "joinpath p s = p @ [s]"

text \<open>\<open>p.name\<close>: the final component, the empty string when there is none.\<close>

definition name :: "path \<Rightarrow> string" where
  "name p = (if p = [] then [] else last p)"

text \<open>\<open>s.startswith(pre)\<close>.\<close>

definition startswith :: "string \<Rightarrow> string \<Rightarrow> bool" where
  "startswith s pre = (take (length pre) s = pre)"

section \<open>The filesystem boundary\<close>

text \<open>
  The code reaches the filesystem through three queries of \<open>pathlib\<close>:
  \<open>Path.exists()\<close>, \<open>Path.iterdir()\<close> and \<open>Path.is_dir()\<close>. Each either answers or
  raises an \<open>OSError\<close>. The filesystem state is what the three queries answer; the
  listing of a directory is the list of its entry names, in the order the operating
  system yields them.
\<close>

datatype io_error =
    PermissionError path
  | NotADirectoryError path
  | FileNotFoundError path
  | OSError path

record filesystem =
  fs_exists :: "path \<Rightarrow> io_error + bool"
  fs_iterdir :: "path \<Rightarrow> io_error + string list"
  fs_is_dir :: "path \<Rightarrow> io_error + bool"

text \<open>The queries a run performs are recorded, in order, beside the filesystem.\<close>

datatype fs_call = Exists path | Iterdir path | IsDir path

record world =
  fs :: filesystem
  trace :: "fs_call list"

definition path_exists :: "path \<Rightarrow> world \<Rightarrow> (io_error + bool) \<times> world" where
  "path_exists p w = (fs_exists (fs w) p, w\<lparr>trace := trace w @ [Exists p]\<rparr>)"

definition path_iterdir :: "path \<Rightarrow> world \<Rightarrow> (io_error + path list) \<times> world" where
  "path_iterdir p w =
     (case fs_iterdir (fs w) p of
        Inl e \<Rightarrow> Inl e
      | Inr names \<Rightarrow> Inr (map (joinpath p) names),
      w\<lparr>trace := trace w @ [Iterdir p]\<rparr>)"

definition path_is_dir :: "path \<Rightarrow> world \<Rightarrow> (io_error + bool) \<times> world" where
  "path_is_dir p w = (fs_is_dir (fs w) p, w\<lparr>trace := trace w @ [IsDir p]\<rparr>)"

section \<open>\<open>_find_extension_binary\<close>\<close>

definition artifact :: string where
  "artifact = ''stps.duckdb_extension''"

text \<open>
  The list comprehension
  \<^verbatim>\<open>[d for d in extensions_base.iterdir() if d.is_dir() and d.name.startswith('v')]\<close>
  over the children already listed: \<open>is_dir\<close> is asked of every child, in listing order,
  before the name is looked at, and the first query that raises ends the comprehension.
\<close>

fun version_dirs_of :: "path list \<Rightarrow> world \<Rightarrow> (io_error + path list) \<times> world" where
  "version_dirs_of [] w = (Inr [], w)"
| "version_dirs_of (d # ds) w =
     (case path_is_dir d w of
        (Inl e, w') \<Rightarrow> (Inl e, w')
      | (Inr b, w') \<Rightarrow>
          (case version_dirs_of ds w' of
             (Inl e, w'') \<Rightarrow> (Inl e, w'')
           | (Inr r, w'') \<Rightarrow>
               (Inr (if b \<and> startswith (name d) ''v'' then d # r else r), w'')))"

text \<open>
  The loop
  \<^verbatim>\<open>for version_dir in version_dirs: ... if ext_path.exists(): return ext_path\<close>
  followed by \<^verbatim>\<open>return None\<close>.
\<close>

fun first_valid :: "path list \<Rightarrow> world \<Rightarrow> (io_error + path option) \<times> world" where
  "first_valid [] w = (Inr None, w)"
| "first_valid (version_dir # rest) w =
     (let ext_path = joinpath version_dir artifact in
      case path_exists ext_path w of
        (Inl e, w') \<Rightarrow> (Inl e, w')
      | (Inr True, w') \<Rightarrow> (Inr (Some ext_path), w')
      | (Inr False, w') \<Rightarrow> first_valid rest w')"

text \<open>\<open>version_dirs.sort(reverse=True)\<close>: the paths in descending order.\<close>

definition sort_reverse :: "path list \<Rightarrow> path list" where
  "sort_reverse ds = rev (sort ds)"

definition find_extension_binary :: "path \<Rightarrow> world \<Rightarrow> (io_error + path option) \<times> world" where
  "find_extension_binary extensions_base w =
     (case path_exists extensions_base w of
        (Inl e, w1) \<Rightarrow> (Inl e, w1)
      | (Inr False, w1) \<Rightarrow> (Inr None, w1)
      | (Inr True, w1) \<Rightarrow>
          (case path_iterdir extensions_base w1 of
             (Inl e, w2) \<Rightarrow> (Inl e, w2)
           | (Inr children, w2) \<Rightarrow>
               (case version_dirs_of children w2 of
                  (Inl e, w3) \<Rightarrow> (Inl e, w3)
                | (Inr version_dirs, w3) \<Rightarrow>
                    if version_dirs = [] then (Inr None, w3)
                    else first_valid (sort_reverse version_dirs) w3)))"

section \<open>\<open>get_duckdb_connection\<close>\<close>

text \<open>
  The database driver is an external collaborator: whether \<open>duckdb.connect\<close> succeeds for
  a database target, and how \<open>LOAD\<close> of a path ends. The home directory is what
  \<open>Path.home()\<close> returns. The function connects first, then looks for the binary
  under \<open>home / '.duckdb' / 'extensions' / 'stps'\<close>, falls back to the hard-coded
  \<open>v1.4.3\<close> path when nothing is found, and loads what it has.
\<close>

datatype load_outcome = Loaded | LoadIOException | LoadOtherError

record driver =
  drv_connect :: "string \<Rightarrow> bool"
  drv_load :: "path \<Rightarrow> load_outcome"

text \<open>A connection: its database target and the extension binary loaded into it.\<close>

record connection =
  conn_database :: string
  conn_extension :: path

text \<open>
  The ways \<open>get_duckdb_connection\<close> ends by raising: an error of the driver in
  \<open>duckdb.connect\<close> or in \<open>LOAD\<close>, a filesystem error that travels up unchanged, the
  \<open>FileNotFoundError\<close> the function raises itself for an extension that is not
  installed, and the \<open>duckdb.IOException\<close> it raises anew for a binary that fails to load.
\<close>

datatype conn_error =
    DriverError
  | Propagated io_error
  | ExtensionNotFound path
  | LoadFailed path

definition load_extension :: "driver \<Rightarrow> string \<Rightarrow> path \<Rightarrow> conn_error + connection" where
  "load_extension drv database ext_path =
     (case drv_load drv ext_path of
        Loaded \<Rightarrow> Inr \<lparr>conn_database = database, conn_extension = ext_path\<rparr>
      | LoadIOException \<Rightarrow> Inl (LoadFailed ext_path)
      | LoadOtherError \<Rightarrow> Inl DriverError)"

definition extensions_base_of :: "path \<Rightarrow> path" where
  "extensions_base_of home =
     joinpath (joinpath (joinpath home ''.duckdb'') ''extensions'') ''stps''"

definition fallback_path :: "path \<Rightarrow> path" where
  "fallback_path home =
     joinpath (joinpath (extensions_base_of home) ''v1.4.3'') ''stps.duckdb_extension''"

definition get_duckdb_connection ::
  "driver \<Rightarrow> path \<Rightarrow> string \<Rightarrow> world \<Rightarrow> (conn_error + connection) \<times> world" where
  "get_duckdb_connection drv home database w =
     (if \<not> drv_connect drv database then (Inl DriverError, w)
      else
        (case find_extension_binary (extensions_base_of home) w of
           (Inl e, w1) \<Rightarrow> (Inl (Propagated e), w1)
         | (Inr (Some ext_path), w1) \<Rightarrow> (load_extension drv database ext_path, w1)
         | (Inr None, w1) \<Rightarrow>
             (let ext_path = fallback_path home in
              case path_exists ext_path w1 of
                (Inl e, w2) \<Rightarrow> (Inl (Propagated e), w2)
              | (Inr False, w2) \<Rightarrow> (Inl (ExtensionNotFound ext_path), w2)
              | (Inr True, w2) \<Rightarrow> (load_extension drv database ext_path, w2))))"

section \<open>Notions used by the statements\<close>

text \<open>The queries one call of \<open>_find_extension_binary\<close> performs, in order.\<close>

definition calls_made :: "path \<Rightarrow> world \<Rightarrow> fs_call list" where
  "calls_made b w = drop (length (trace w)) (trace (snd (find_extension_binary b w)))"

text \<open>The error a query raises in a filesystem, if it raises.\<close>

fun call_error :: "filesystem \<Rightarrow> fs_call \<Rightarrow> io_error option" where
  "call_error f (Exists p) = (case fs_exists f p of Inl e \<Rightarrow> Some e | Inr _ \<Rightarrow> None)"
| "call_error f (Iterdir p) = (case fs_iterdir f p of Inl e \<Rightarrow> Some e | Inr _ \<Rightarrow> None)"
| "call_error f (IsDir p) = (case fs_is_dir f p of Inl e \<Rightarrow> Some e | Inr _ \<Rightarrow> None)"

text \<open>
  The names of the version subdirectories kept from a listing of the base directory:
  the children that are directories and whose name begins with \<open>v\<close>, in listing order.
\<close>

definition kept_names :: "filesystem \<Rightarrow> path \<Rightarrow> string list \<Rightarrow> string list" where
  "kept_names f b names =
     filter (\<lambda>n. fs_is_dir f (joinpath b n) = Inr True \<and> startswith n ''v'') names"

text \<open>
  A child of the base directory that is left out: \<open>is_dir\<close> answers for it, and
  answers that it is not a directory, or that it is one while its name does not begin with
  \<open>v\<close>. A child for which \<open>is_dir\<close> raises is not left out: the call raises.
\<close>

definition excluded :: "filesystem \<Rightarrow> path \<Rightarrow> string \<Rightarrow> bool" where
  "excluded f b n =
     (fs_is_dir f (joinpath b n) = Inr False \<or>
      (fs_is_dir f (joinpath b n) = Inr True \<and> \<not> startswith n ''v''))"


text \<open>
  The first kept version subdirectory, in descending lexicographic order of the names, in
  which \<open>exists()\<close> answers True for the artifact's name, and the path of that entry.
  \<open>exists()\<close> is true of an entry of any kind.
\<close>

definition first_existing :: "filesystem \<Rightarrow> path \<Rightarrow> string \<Rightarrow> string list \<Rightarrow> path option" where
  "first_existing f b artifact_filename names =
     map_option (\<lambda>n. joinpath (joinpath b n) artifact_filename)
       (find (\<lambda>n. fs_exists f (joinpath (joinpath b n) artifact_filename) = Inr True)
          (rev (sort (kept_names f b names))))"

text \<open>A file at a path: an entry that exists and is not a directory.\<close>

definition file_at :: "filesystem \<Rightarrow> path \<Rightarrow> bool" where
  "file_at f p = (fs_exists f p = Inr True \<and> fs_is_dir f p = Inr False)"

text \<open>
  The resolver as the specification words it, for a listing \<open>names\<close> of the base
  directory: keep the version subdirectories, order their names in descending
  lexicographic order, and return the artifact path inside the first one in which the
  artifact filename exists as a direct child file.
\<close>

definition spec_resolve :: "filesystem \<Rightarrow> path \<Rightarrow> string \<Rightarrow> string list \<Rightarrow> path option" where
  "spec_resolve f b artifact_filename names =
     map_option (\<lambda>n. joinpath (joinpath b n) artifact_filename)
       (find (\<lambda>n. file_at f (joinpath (joinpath b n) artifact_filename))
          (rev (sort (kept_names f b names))))"

section \<open>Fixture filesystems\<close>

text \<open>
  A mock of the filesystem boundary for concrete runs: the entries of a disk, each a path
  with its kind, in listing order. \<open>norm\<close> is how the filesystem identifies names: the
  identity on a case-sensitive filesystem, case folding on a case-insensitive one.
\<close>

datatype kind = File | Dir

type_synonym disk = "(path \<times> kind) list"

definition disk_lookup :: "(string \<Rightarrow> string) \<Rightarrow> disk \<Rightarrow> path \<Rightarrow> kind option" where
  "disk_lookup norm d p =
     (if p = [] then Some Dir
      else map_option snd (find (\<lambda>e. map norm (fst e) = map norm p) d))"

definition disk_children :: "(string \<Rightarrow> string) \<Rightarrow> disk \<Rightarrow> path \<Rightarrow> string list" where
  "disk_children norm d p =
     map (\<lambda>e. last (fst e))
       (filter (\<lambda>e. fst e \<noteq> [] \<and> map norm (butlast (fst e)) = map norm p) d)"

definition fs_of_disk :: "(string \<Rightarrow> string) \<Rightarrow> disk \<Rightarrow> filesystem" where
  "fs_of_disk norm d =
     \<lparr>fs_exists = (\<lambda>p. Inr (disk_lookup norm d p \<noteq> None)),
      fs_iterdir = (\<lambda>p. case disk_lookup norm d p of
                          None \<Rightarrow> Inl (FileNotFoundError p)
                        | Some File \<Rightarrow> Inl (NotADirectoryError p)
                        | Some Dir \<Rightarrow> Inr (disk_children norm d p)),
      fs_is_dir = (\<lambda>p. Inr (disk_lookup norm d p = Some Dir))\<rparr>"

definition start :: "filesystem \<Rightarrow> world" where
  "start f = \<lparr>fs = f, trace = []\<rparr>"

definition ascii_lower :: "string \<Rightarrow> string" where
  "ascii_lower s =
     map (\<lambda>c. if CHR ''A'' \<le> c \<and> c \<le> CHR ''Z''
              then char_of (of_char c + (32::nat)) else c) s"

text \<open>A home directory and the extensions directory under it.\<close>

definition home_u :: path where
  "home_u = [''home'', ''u'']"

definition base :: path where
  "base = [''home'', ''u'', ''.duckdb'', ''extensions'', ''stps'']"

definition parents :: disk where
  "parents =
     [([''home''], Dir), ([''home'', ''u''], Dir), ([''home'', ''u'', ''.duckdb''], Dir),
      ([''home'', ''u'', ''.duckdb'', ''extensions''], Dir), (base, Dir)]"

text \<open>A version directory under \<open>base\<close>, with or without the artifact in it.\<close>

definition installed :: "string \<Rightarrow> disk" where
  "installed v = [(base @ [v], Dir), (base @ [v, artifact], File)]"

definition hollow :: "string \<Rightarrow> disk" where
  "hollow v = [(base @ [v], Dir)]"

definition disk_two_versions :: disk where
  "disk_two_versions = parents @ installed ''v1.2.0'' @ installed ''v1.3.0''"

definition disk_textual :: disk where
  "disk_textual = parents @ installed ''v1.9.0'' @ installed ''v1.10.0''"

definition disk_newest_hollow :: disk where
  "disk_newest_hollow = parents @ hollow ''v2.0.0'' @ installed ''v1.9.0''"

definition disk_not_installed :: disk where
  "disk_not_installed = [([''home''], Dir), ([''home'', ''u''], Dir)]"

definition disk_empty_base :: disk where
  "disk_empty_base = parents"

definition disk_no_artifact :: disk where
  "disk_no_artifact = parents @ hollow ''v1.0.0'' @ hollow ''v1.1.0''"

text \<open>
  Beside one installed version: a directory whose name has no \<open>v\<close> in front and which
  holds a file named like the artifact, a directory with a newer-looking name without the
  prefix, and a plain file whose name begins with \<open>v\<close>.
\<close>

definition disk_mixed :: disk where
  "disk_mixed =
     parents @ installed ''v1.4.3'' @
     [(base @ [''cache''], Dir), (base @ [''cache'', artifact], File),
      (base @ [''9.9.9''], Dir), (base @ [''9.9.9'', artifact], File),
      (base @ [''v9.txt''], File)]"

definition disk_single :: disk where
  "disk_single = parents @ installed ''v1.4.3''"

text \<open>A version directory written with a capital \<open>V\<close>.\<close>

definition disk_capital :: disk where
  "disk_capital = parents @ installed ''V1.4.3''"

text \<open>A filesystem in which listing any directory is denied.\<close>

definition fs_listing_denied :: filesystem where
  "fs_listing_denied =
     (fs_of_disk id disk_single)\<lparr>fs_iterdir := (\<lambda>p. Inl (PermissionError p))\<rparr>"

definition driver_ok :: driver where
  "driver_ok = \<lparr>drv_connect = (\<lambda>_. True), drv_load = (\<lambda>_. Loaded)\<rparr>"

text \<open>A version directory under \<open>base\<close> that holds a directory named like the artifact.\<close>

definition decoy :: "string \<Rightarrow> disk" where
  "decoy v = [(base @ [v], Dir), (base @ [v, artifact], Dir)]"

definition disk_decoy_newest :: disk where
  "disk_decoy_newest = parents @ installed ''v1.2.0'' @ decoy ''v1.3.0''"

definition disk_decoy_skipped :: disk where
  "disk_decoy_skipped = parents @ decoy ''v2.0.0'' @ installed ''v1.9.0''"

definition disk_decoy_only :: disk where
  "disk_decoy_only = parents @ decoy ''v1.0.0''"



section \<open>Below \<open>pathlib\<close>\<close>

text \<open>
  \<open>Path.exists()\<close> and \<open>Path.is_dir()\<close> call \<open>stat\<close>, and \<open>Path.iterdir()\<close> lists
  the directory. \<open>exists()\<close> and \<open>is_dir()\<close> answer False when \<open>stat\<close> fails with
  \<open>ENOENT\<close>, \<open>ENOTDIR\<close>, \<open>EBADF\<close> or \<open>ELOOP\<close>, and raise on its other errors (the
  behaviour of Python 3.8 to 3.13); \<open>iterdir()\<close> raises on every error.
\<close>

datatype errno = ENOENT | ENOTDIR | EBADF | ELOOP | EACCES | EIO

record os_state =
  os_stat :: "path \<Rightarrow> errno + kind"
  os_listdir :: "path \<Rightarrow> errno + string list"

definition ignored_errno :: "errno \<Rightarrow> bool" where
  "ignored_errno e = (e = ENOENT \<or> e = ENOTDIR \<or> e = EBADF \<or> e = ELOOP)"

definition raise_errno :: "errno \<Rightarrow> path \<Rightarrow> io_error" where
  "raise_errno e p =
     (case e of
        EACCES \<Rightarrow> PermissionError p
      | ENOTDIR \<Rightarrow> NotADirectoryError p
      | ENOENT \<Rightarrow> FileNotFoundError p
      | _ \<Rightarrow> OSError p)"

definition pathlib_exists :: "os_state \<Rightarrow> path \<Rightarrow> io_error + bool" where
  "pathlib_exists os p =
     (case os_stat os p of
        Inr k \<Rightarrow> Inr True
      | Inl e \<Rightarrow> if ignored_errno e then Inr False else Inl (raise_errno e p))"

definition pathlib_is_dir :: "os_state \<Rightarrow> path \<Rightarrow> io_error + bool" where
  "pathlib_is_dir os p =
     (case os_stat os p of
        Inr k \<Rightarrow> Inr (k = Dir)
      | Inl e \<Rightarrow> if ignored_errno e then Inr False else Inl (raise_errno e p))"

definition pathlib_iterdir :: "os_state \<Rightarrow> path \<Rightarrow> io_error + string list" where
  "pathlib_iterdir os p =
     (case os_listdir os p of
        Inr names \<Rightarrow> Inr names
      | Inl e \<Rightarrow> Inl (raise_errno e p))"

definition fs_of_os :: "os_state \<Rightarrow> filesystem" where
  "fs_of_os os =
     \<lparr>fs_exists = pathlib_exists os, fs_iterdir = pathlib_iterdir os,
      fs_is_dir = pathlib_is_dir os\<rparr>"

text \<open>A home directory in which the base directory is a symbolic link to itself.\<close>

definition os_loop :: os_state where
  "os_loop =
     \<lparr>os_stat = (\<lambda>p. if p = base then Inl ELOOP
                       else if p \<in> set (map fst parents) then Inr Dir else Inl ENOENT),
      os_listdir = (\<lambda>p. if p = base then Inl ELOOP else Inl ENOENT)\<rparr>"

text \<open>A home directory in which searching the parent of the base directory is denied.\<close>

definition os_denied :: os_state where
  "os_denied =
     \<lparr>os_stat = (\<lambda>p. if p = base then Inl EACCES else Inl ENOENT),
      os_listdir = (\<lambda>p. Inl EACCES)\<rparr>"

section \<open>Paths and their order\<close>

lemma joinpath_le_iff: "joinpath b n \<le> joinpath b m \<longleftrightarrow> n \<le> m"
  unfolding joinpath_def by (induction b) auto

lemma insort_joinpath:
  "insort (joinpath b n) (map (joinpath b) ms) = map (joinpath b) (insort n ms)"
  by (induction ms) (simp_all add: joinpath_le_iff)

lemma sort_joinpath: "sort (map (joinpath b) ns) = map (joinpath b) (sort ns)"
  by (induction ns) (simp_all add: insort_joinpath)

lemma sort_reverse_joinpath:
  "sort_reverse (map (joinpath b) ns) = map (joinpath b) (rev (sort ns))"
  by (simp add: sort_reverse_def sort_joinpath rev_map)

lemma name_joinpath: "name (joinpath b n) = n"
  by (simp add: name_def joinpath_def)

section \<open>The two loops\<close>

text \<open>One step of each loop.\<close>

lemma version_dirs_of_Cons:
  "version_dirs_of (d # ds) w =
     (case fs_is_dir (fs w) d of
        Inl e \<Rightarrow> (Inl e, w\<lparr>trace := trace w @ [IsDir d]\<rparr>)
      | Inr x \<Rightarrow>
          (case version_dirs_of ds (w\<lparr>trace := trace w @ [IsDir d]\<rparr>) of
             (Inl e, w'') \<Rightarrow> (Inl e, w'')
           | (Inr r, w'') \<Rightarrow>
               (Inr (if x \<and> startswith (name d) ''v'' then d # r else r), w'')))"
  by (simp add: path_is_dir_def split: sum.splits)

lemma first_valid_Cons:
  "first_valid (d # ds) w =
     (case fs_exists (fs w) (joinpath d artifact) of
        Inl e \<Rightarrow> (Inl e, w\<lparr>trace := trace w @ [Exists (joinpath d artifact)]\<rparr>)
      | Inr x \<Rightarrow>
          if x then (Inr (Some (joinpath d artifact)),
                     w\<lparr>trace := trace w @ [Exists (joinpath d artifact)]\<rparr>)
          else first_valid ds (w\<lparr>trace := trace w @ [Exists (joinpath d artifact)]\<rparr>))"
  by (simp add: path_exists_def Let_def split: sum.splits bool.splits)

lemma version_dirs_of_fs: "version_dirs_of ds w = (r, w') \<Longrightarrow> fs w' = fs w"
proof (induction ds arbitrary: w r w')
  case Nil
  then show ?case by simp
next
  case (Cons d ds)
  obtain r2 w2 where rec: "version_dirs_of ds (w\<lparr>trace := trace w @ [IsDir d]\<rparr>) = (r2, w2)"
    by fastforce
  from Cons.IH [OF rec] have "fs w2 = fs w" by simp
  with Cons.prems rec show ?case
    by (auto simp: version_dirs_of_Cons simp del: version_dirs_of.simps split: sum.splits)
qed

lemma first_valid_fs: "first_valid ds w = (r, w') \<Longrightarrow> fs w' = fs w"
proof (induction ds arbitrary: w r w')
  case Nil
  then show ?case by simp
next
  case (Cons d ds)
  obtain r2 w2 where rec:
    "first_valid ds (w\<lparr>trace := trace w @ [Exists (joinpath d artifact)]\<rparr>) = (r2, w2)"
    by fastforce
  from Cons.IH [OF rec] have "fs w2 = fs w" by simp
  with Cons.prems rec show ?case
    by (auto simp: first_valid_Cons simp del: first_valid.simps split: sum.splits if_splits)
qed

text \<open>The function past its first two queries.\<close>

lemma find_extension_binary_absent:
  "fs_exists (fs w) b = Inr False \<Longrightarrow>
   find_extension_binary b w = (Inr None, w\<lparr>trace := trace w @ [Exists b]\<rparr>)"
  by (simp add: find_extension_binary_def path_exists_def)

lemma find_extension_binary_exists_error:
  "fs_exists (fs w) b = Inl e \<Longrightarrow>
   find_extension_binary b w = (Inl e, w\<lparr>trace := trace w @ [Exists b]\<rparr>)"
  by (simp add: find_extension_binary_def path_exists_def)

lemma find_extension_binary_iterdir_error:
  "fs_exists (fs w) b = Inr True \<Longrightarrow> fs_iterdir (fs w) b = Inl e \<Longrightarrow>
   find_extension_binary b w = (Inl e, w\<lparr>trace := trace w @ [Exists b, Iterdir b]\<rparr>)"
  by (simp add: find_extension_binary_def path_exists_def path_iterdir_def)

lemma find_extension_binary_listed:
  "fs_exists (fs w) b = Inr True \<Longrightarrow> fs_iterdir (fs w) b = Inr names \<Longrightarrow>
   find_extension_binary b w =
     (case version_dirs_of (map (joinpath b) names)
             (w\<lparr>trace := trace w @ [Exists b, Iterdir b]\<rparr>) of
        (Inl e, w3) \<Rightarrow> (Inl e, w3)
      | (Inr vds, w3) \<Rightarrow> first_valid (sort_reverse vds) w3)"
  by (simp add: find_extension_binary_def path_exists_def path_iterdir_def sort_reverse_def
      split: prod.splits sum.splits)


text \<open>What the comprehension keeps.\<close>

lemma version_dirs_of_result:
  "version_dirs_of ds w = (Inr vs, w') \<Longrightarrow>
   vs = filter (\<lambda>d. fs_is_dir (fs w) d = Inr True \<and> startswith (name d) ''v'') ds"
proof (induction ds arbitrary: w vs w')
  case Nil
  then show ?case by simp
next
  case (Cons d ds)
  let ?w1 = "w\<lparr>trace := trace w @ [IsDir d]\<rparr>"
  obtain r2 w2 where rec: "version_dirs_of ds ?w1 = (r2, w2)"
    by fastforce
  from Cons.prems rec obtain x vs2 where x: "fs_is_dir (fs w) d = Inr x" and r2: "r2 = Inr vs2"
    and vs: "vs = (if x \<and> startswith (name d) ''v'' then d # vs2 else vs2)"
    by (auto simp: version_dirs_of_Cons simp del: version_dirs_of.simps split: sum.splits)
  from Cons.IH [of ?w1 vs2 w2] rec r2
  have "vs2 = filter (\<lambda>d. fs_is_dir (fs w) d = Inr True \<and> startswith (name d) ''v'') ds"
    by simp
  with x vs show ?case by auto
qed

lemma version_dirs_of_answered:
  "\<forall>d\<in>set ds. \<exists>x. fs_is_dir (fs w) d = Inr x \<Longrightarrow>
   version_dirs_of ds w =
     (Inr (filter (\<lambda>d. fs_is_dir (fs w) d = Inr True \<and> startswith (name d) ''v'') ds),
      w\<lparr>trace := trace w @ map IsDir ds\<rparr>)"
proof (induction ds arbitrary: w)
  case Nil
  then show ?case by simp
next
  case (Cons d ds)
  let ?w1 = "w\<lparr>trace := trace w @ [IsDir d]\<rparr>"
  from Cons.prems obtain x where x: "fs_is_dir (fs w) d = Inr x" by auto
  from Cons.prems have "\<forall>d\<in>set ds. \<exists>x. fs_is_dir (fs ?w1) d = Inr x" by simp
  from Cons.IH [OF this] x show ?case
    by (auto simp: version_dirs_of_Cons simp del: version_dirs_of.simps)
qed

text \<open>The queries of each loop, and which of them can have failed.\<close>

lemma version_dirs_of_calls:
  "version_dirs_of ds w = (r, w') \<Longrightarrow>
   \<exists>cs. trace w' = trace w @ cs \<and> set cs \<subseteq> IsDir ` set ds \<and>
        (\<forall>c\<in>set cs. \<forall>e. call_error (fs w) c = Some e \<longrightarrow> r = Inl e) \<and>
        (\<forall>e. r = Inl e \<longrightarrow> (\<exists>c\<in>set cs. call_error (fs w) c = Some e))"
proof (induction ds arbitrary: w r w')
  case Nil
  then show ?case by auto
next
  case (Cons d ds)
  let ?w1 = "w\<lparr>trace := trace w @ [IsDir d]\<rparr>"
  show ?case
  proof (cases "fs_is_dir (fs w) d")
    case (Inl e)
    with Cons.prems have "r = Inl e" "w' = ?w1"
      by (auto simp: version_dirs_of_Cons simp del: version_dirs_of.simps)
    with Inl show ?thesis
      by (intro exI [of _ "[IsDir d]"]) simp
  next
    case (Inr x)
    obtain r2 w2 where rec: "version_dirs_of ds ?w1 = (r2, w2)"
      by fastforce
    from Cons.IH [OF rec] obtain cs where cs: "trace w2 = trace ?w1 @ cs" "set cs \<subseteq> IsDir ` set ds"
      "\<forall>c\<in>set cs. \<forall>e. call_error (fs w) c = Some e \<longrightarrow> r2 = Inl e"
      "\<forall>e. r2 = Inl e \<longrightarrow> (\<exists>c\<in>set cs. call_error (fs w) c = Some e)"
      by auto
    from Cons.prems Inr rec have w': "w' = w2" and r: "(\<forall>e. r = Inl e \<longleftrightarrow> r2 = Inl e)"
      by (auto simp: version_dirs_of_Cons simp del: version_dirs_of.simps split: sum.splits)
    have "trace w' = trace w @ (IsDir d # cs)" using cs(1) w' by simp
    moreover have "set (IsDir d # cs) \<subseteq> IsDir ` set (d # ds)" using cs(2) by auto
    moreover have "\<forall>c\<in>set (IsDir d # cs). \<forall>e. call_error (fs w) c = Some e \<longrightarrow> r = Inl e"
      using cs(3) r Inr by auto
    moreover have "\<forall>e. r = Inl e \<longrightarrow> (\<exists>c\<in>set (IsDir d # cs). call_error (fs w) c = Some e)"
      using cs(4) r by auto
    ultimately show ?thesis by blast
  qed
qed

lemma first_valid_calls:
  "first_valid ds w = (r, w') \<Longrightarrow>
   \<exists>cs. trace w' = trace w @ cs \<and> set cs \<subseteq> (\<lambda>d. Exists (joinpath d artifact)) ` set ds \<and>
        (\<forall>c\<in>set cs. \<forall>e. call_error (fs w) c = Some e \<longrightarrow> r = Inl e) \<and>
        (\<forall>e. r = Inl e \<longrightarrow> (\<exists>c\<in>set cs. call_error (fs w) c = Some e))"
proof (induction ds arbitrary: w r w')
  case Nil
  then show ?case by auto
next
  case (Cons d ds)
  let ?q = "Exists (joinpath d artifact)"
  let ?w1 = "w\<lparr>trace := trace w @ [?q]\<rparr>"
  show ?case
  proof (cases "fs_exists (fs w) (joinpath d artifact)")
    case (Inl e)
    with Cons.prems have "r = Inl e" "w' = ?w1"
      by (auto simp: first_valid_Cons simp del: first_valid.simps)
    with Inl show ?thesis
      by (intro exI [of _ "[?q]"]) simp
  next
    case (Inr x)
    show ?thesis
    proof (cases x)
      case True
      with Inr Cons.prems have "r = Inr (Some (joinpath d artifact))" "w' = ?w1"
        by (auto simp: first_valid_Cons simp del: first_valid.simps)
      with Inr show ?thesis
        by (intro exI [of _ "[?q]"]) simp
    next
      case False
      with Inr Cons.prems have rec: "first_valid ds ?w1 = (r, w')"
        by (simp add: first_valid_Cons del: first_valid.simps)
      from Cons.IH [OF rec] obtain cs where cs: "trace w' = trace ?w1 @ cs"
        "set cs \<subseteq> (\<lambda>d. Exists (joinpath d artifact)) ` set ds"
        "\<forall>c\<in>set cs. \<forall>e. call_error (fs w) c = Some e \<longrightarrow> r = Inl e"
        "\<forall>e. r = Inl e \<longrightarrow> (\<exists>c\<in>set cs. call_error (fs w) c = Some e)"
        by auto
      have "trace w' = trace w @ (?q # cs)" using cs(1) by simp
      moreover have "set (?q # cs) \<subseteq> (\<lambda>d. Exists (joinpath d artifact)) ` set (d # ds)"
        using cs(2) by auto
      moreover have "\<forall>c\<in>set (?q # cs). \<forall>e. call_error (fs w) c = Some e \<longrightarrow> r = Inl e"
        using cs(3) Inr by auto
      moreover have "\<forall>e. r = Inl e \<longrightarrow> (\<exists>c\<in>set (?q # cs). call_error (fs w) c = Some e)"
        using cs(4) by auto
      ultimately show ?thesis by blast
    qed
  qed
qed

text \<open>What the loop returns.\<close>

lemma first_valid_result:
  "first_valid ds w = (r, w') \<Longrightarrow>
   r = (case find (\<lambda>d. fs_exists (fs w) (joinpath d artifact) \<noteq> Inr False) ds of
          None \<Rightarrow> Inr None
        | Some d \<Rightarrow>
            (case fs_exists (fs w) (joinpath d artifact) of
               Inl e \<Rightarrow> Inl e
             | Inr x \<Rightarrow> Inr (Some (joinpath d artifact))))"
proof (induction ds arbitrary: w r w')
  case Nil
  then show ?case by simp
next
  case (Cons d ds)
  let ?w1 = "w\<lparr>trace := trace w @ [Exists (joinpath d artifact)]\<rparr>"
  show ?case
  proof (cases "fs_exists (fs w) (joinpath d artifact) = Inr False")
    case True
    with Cons.prems have rec: "first_valid ds ?w1 = (r, w')"
      by (simp add: first_valid_Cons del: first_valid.simps)
    from Cons.IH [OF rec] True show ?thesis by (simp cong: option.case_cong)
  next
    case False
    with Cons.prems show ?thesis
      by (auto simp: first_valid_Cons simp del: first_valid.simps split: sum.splits if_splits)
  qed
qed

lemma first_valid_answered:
  assumes "\<forall>d\<in>set ds. \<exists>x. fs_exists (fs w) (joinpath d artifact) = Inr x"
  shows "fst (first_valid ds w) =
    Inr (map_option (\<lambda>d. joinpath d artifact)
          (find (\<lambda>d. fs_exists (fs w) (joinpath d artifact) = Inr True) ds))"
proof -
  have same: "find (\<lambda>d. fs_exists (fs w) (joinpath d artifact) \<noteq> Inr False) ds =
      find (\<lambda>d. fs_exists (fs w) (joinpath d artifact) = Inr True) ds"
    using assms by (intro find_cong) auto
  obtain r w' where rw: "first_valid ds w = (r, w')" by fastforce
  show ?thesis
  proof (cases "find (\<lambda>d. fs_exists (fs w) (joinpath d artifact) = Inr True) ds")
    case None
    with first_valid_result [OF rw] same rw show ?thesis by simp
  next
    case (Some d)
    then have "fs_exists (fs w) (joinpath d artifact) = Inr True"
      by (auto simp: find_Some_iff)
    with first_valid_result [OF rw] same rw Some show ?thesis by simp
  qed
qed

text \<open>The result depends on the filesystem through the answers to the queries only.\<close>

lemma version_dirs_of_agree:
  "\<forall>d\<in>set ds. fs_is_dir (fs w) d = fs_is_dir (fs v) d \<Longrightarrow>
   fst (version_dirs_of ds w) = fst (version_dirs_of ds v)"
proof (induction ds arbitrary: w v)
  case Nil
  then show ?case by simp
next
  case (Cons d ds)
  let ?w1 = "w\<lparr>trace := trace w @ [IsDir d]\<rparr>"
  let ?v1 = "v\<lparr>trace := trace v @ [IsDir d]\<rparr>"
  from Cons.prems have "\<forall>d\<in>set ds. fs_is_dir (fs ?w1) d = fs_is_dir (fs ?v1) d" by simp
  from Cons.IH [OF this] have "fst (version_dirs_of ds ?w1) = fst (version_dirs_of ds ?v1)" .
  moreover from Cons.prems have "fs_is_dir (fs w) d = fs_is_dir (fs v) d" by simp
  ultimately show ?case
    by (auto simp: version_dirs_of_Cons simp del: version_dirs_of.simps
        split: sum.splits prod.splits)
qed

lemma first_valid_agree:
  "\<forall>d\<in>set ds. fs_exists (fs w) (joinpath d artifact) = fs_exists (fs v) (joinpath d artifact) \<Longrightarrow>
   fst (first_valid ds w) = fst (first_valid ds v)"
proof (induction ds arbitrary: w v)
  case Nil
  then show ?case by simp
next
  case (Cons d ds)
  let ?w1 = "w\<lparr>trace := trace w @ [Exists (joinpath d artifact)]\<rparr>"
  let ?v1 = "v\<lparr>trace := trace v @ [Exists (joinpath d artifact)]\<rparr>"
  from Cons.prems have "\<forall>d\<in>set ds. fs_exists (fs ?w1) (joinpath d artifact)
      = fs_exists (fs ?v1) (joinpath d artifact)" by simp
  from Cons.IH [OF this] have "fst (first_valid ds ?w1) = fst (first_valid ds ?v1)" .
  moreover from Cons.prems
  have "fs_exists (fs w) (joinpath d artifact) = fs_exists (fs v) (joinpath d artifact)" by simp
  ultimately show ?case
    by (auto simp: first_valid_Cons simp del: first_valid.simps split: sum.splits)
qed

section \<open>Lists: searching and sorting\<close>

lemma find_map_comp: "find P (map f xs) = map_option f (find (\<lambda>x. P (f x)) xs)"
  by (induction xs) auto

lemma find_unique:
  "x \<in> set xs \<Longrightarrow> P x \<Longrightarrow> \<forall>y\<in>set xs. P y \<longrightarrow> y = x \<Longrightarrow> find P xs = Some x"
proof (induction xs)
  case Nil
  then show ?case by simp
next
  case (Cons a xs)
  show ?case
  proof (cases "P a")
    case True
    with Cons.prems have "a = x" by simp
    with True show ?thesis by simp
  next
    case False
    with Cons.prems have "x \<in> set xs" by auto
    moreover from Cons.prems have "\<forall>y\<in>set xs. P y \<longrightarrow> y = x" by simp
    ultimately have "find P xs = Some x" using Cons.prems(2) Cons.IH by blast
    with False show ?thesis by simp
  qed
qed

lemma find_none: "\<forall>y\<in>set xs. \<not> P y \<Longrightarrow> find P xs = None"
  by (induction xs) auto

lemma sort_eq_Nil: "sort xs = [] \<longleftrightarrow> xs = []"
proof -
  have "length (sort xs) = length xs" by simp
  then show ?thesis by (metis length_0_conv)
qed

lemma sorted_last_greatest: "sorted xs \<Longrightarrow> x \<in> set xs \<Longrightarrow> x \<le> last xs"
  by (induction xs) auto

lemma hd_rev_sort_greatest:
  fixes x :: "'a::linorder"
  assumes "x \<in> set xs"
  shows "x \<le> hd (rev (sort xs))"
proof -
  from assms have ne: "sort xs \<noteq> []" by (auto simp: sort_eq_Nil)
  have "x \<le> last (sort xs)"
    by (rule sorted_last_greatest) (simp_all add: assms)
  with ne show ?thesis by (simp add: hd_rev)
qed

lemma hd_rev_sort_mem:
  fixes xs :: "'a::linorder list"
  assumes "xs \<noteq> []"
  shows "hd (rev (sort xs)) \<in> set xs"
proof -
  from assms have "sort xs \<noteq> []" by (simp add: sort_eq_Nil)
  then have "last (sort xs) \<in> set (sort xs)" by (rule last_in_set)
  with \<open>sort xs \<noteq> []\<close> show ?thesis by (simp add: hd_rev)
qed

lemma rev_sort_greatest_first:
  fixes hi :: "'a::linorder"
  assumes "hi \<in> set xs" and "\<forall>x\<in>set xs. x \<le> hi"
  shows "\<exists>rest. rev (sort xs) = hi # rest"
proof -
  from assms(1) have ne: "xs \<noteq> []" by auto
  then have ne': "rev (sort xs) \<noteq> []" by (simp add: sort_eq_Nil)
  have "hi \<le> hd (rev (sort xs))" using assms(1) by (rule hd_rev_sort_greatest)
  moreover have "hd (rev (sort xs)) \<le> hi" using assms(2) hd_rev_sort_mem [OF ne] by blast
  ultimately have "hd (rev (sort xs)) = hi" by (rule antisym [rotated])
  with ne' have "rev (sort xs) = hi # tl (rev (sort xs))" by (metis list.collapse)
  then show ?thesis ..
qed

section \<open>The whole function\<close>

lemma find_extension_binary_fs:
  assumes run: "find_extension_binary b w = (r, w')"
  shows "fs w' = fs w"
proof (cases "fs_exists (fs w) b")
  case (Inl e)
  from find_extension_binary_exists_error [OF Inl] run
  have "w' = w\<lparr>trace := trace w @ [Exists b]\<rparr>" by simp
  then show ?thesis by simp
next
  case (Inr x)
  show ?thesis
  proof (cases x)
    case False
    with Inr have "fs_exists (fs w) b = Inr False" by simp
    from find_extension_binary_absent [OF this] run
    have "w' = w\<lparr>trace := trace w @ [Exists b]\<rparr>" by simp
    then show ?thesis by simp
  next
    case True
    with Inr have ex: "fs_exists (fs w) b = Inr True" by simp
    show ?thesis
    proof (cases "fs_iterdir (fs w) b")
      case (Inl e)
      from find_extension_binary_iterdir_error [OF ex Inl] run
      have "w' = w\<lparr>trace := trace w @ [Exists b, Iterdir b]\<rparr>" by simp
      then show ?thesis by simp
    next
      case (Inr names)
      let ?w2 = "w\<lparr>trace := trace w @ [Exists b, Iterdir b]\<rparr>"
      obtain r3 w3 where v: "version_dirs_of (map (joinpath b) names) ?w2 = (r3, w3)"
        by (cases "version_dirs_of (map (joinpath b) names) ?w2") blast
      have f3: "fs w3 = fs w"
        using version_dirs_of_fs [OF v] by simp
      have e: "find_extension_binary b w =
          (case r3 of Inl e \<Rightarrow> (Inl e, w3) | Inr vds \<Rightarrow> first_valid (sort_reverse vds) w3)"
        unfolding find_extension_binary_listed [OF ex Inr] v by simp
      show ?thesis
      proof (cases r3)
        case (Inl e3)
        with e run have "w' = w3" by simp
        with f3 show ?thesis by simp
      next
        case (Inr vds)
        with e run have "first_valid (sort_reverse vds) w3 = (r, w')" by simp
        from first_valid_fs [OF this] f3 show ?thesis by simp
      qed
    qed
  qed
qed

lemma find_extension_binary_kept:
  assumes ex: "fs_exists (fs w) b = Inr True"
    and ls: "fs_iterdir (fs w) b = Inr names"
    and dirs: "\<forall>n\<in>set names. \<exists>x. fs_is_dir (fs w) (joinpath b n) = Inr x"
  shows "find_extension_binary b w =
     first_valid (map (joinpath b) (rev (sort (kept_names (fs w) b names))))
       (w\<lparr>trace := trace w @ [Exists b, Iterdir b] @ map (\<lambda>n. IsDir (joinpath b n)) names\<rparr>)"
proof -
  let ?w2 = "w\<lparr>trace := trace w @ [Exists b, Iterdir b]\<rparr>"
  let ?w3 = "w\<lparr>trace := trace w @ [Exists b, Iterdir b] @ map (\<lambda>n. IsDir (joinpath b n)) names\<rparr>"
  have keep: "filter (\<lambda>d. fs_is_dir (fs w) d = Inr True \<and> startswith (name d) ''v'')
      (map (joinpath b) names) = map (joinpath b) (kept_names (fs w) b names)"
    unfolding kept_names_def filter_map comp_def name_joinpath ..
  have w3: "?w2\<lparr>trace := trace ?w2 @ map IsDir (map (joinpath b) names)\<rparr> = ?w3"
    by simp
  from dirs have "\<forall>d\<in>set (map (joinpath b) names). \<exists>x. fs_is_dir (fs ?w2) d = Inr x"
    by simp
  from version_dirs_of_answered [OF this]
  have v: "version_dirs_of (map (joinpath b) names) ?w2 =
      (Inr (map (joinpath b) (kept_names (fs w) b names)), ?w3)"
    unfolding w3 using keep by simp
  show ?thesis
    unfolding find_extension_binary_listed [OF ex ls] v
    by (simp add: sort_reverse_joinpath)
qed
lemma find_extension_binary_answered:
  assumes ex: "fs_exists (fs w) b = Inr True"
    and ls: "fs_iterdir (fs w) b = Inr names"
    and dirs: "\<forall>n\<in>set names. \<exists>x. fs_is_dir (fs w) (joinpath b n) = Inr x"
    and probes: "\<forall>n\<in>set (kept_names (fs w) b names).
        \<exists>x. fs_exists (fs w) (joinpath (joinpath b n) artifact) = Inr x"
  shows "fst (find_extension_binary b w) = Inr (first_existing (fs w) b artifact names)"
proof -
  let ?w3 = "w\<lparr>trace := trace w @ [Exists b, Iterdir b] @ map (\<lambda>n. IsDir (joinpath b n)) names\<rparr>"
  let ?ds = "map (joinpath b) (rev (sort (kept_names (fs w) b names)))"
  from probes have "\<forall>d\<in>set ?ds. \<exists>x. fs_exists (fs ?w3) (joinpath d artifact) = Inr x"
    by auto
  from first_valid_answered [OF this]
  have "fst (first_valid ?ds ?w3) = Inr (first_existing (fs w) b artifact names)"
    by (simp add: first_existing_def find_map_comp option.map_comp comp_def)
  with find_extension_binary_kept [OF ex ls dirs] show ?thesis by simp
qed

lemma find_extension_binary_greatest:
  assumes ex: "fs_exists (fs w) b = Inr True"
    and ls: "fs_iterdir (fs w) b = Inr names"
    and dirs: "\<forall>n\<in>set names. \<exists>x. fs_is_dir (fs w) (joinpath b n) = Inr x"
    and hi: "hi \<in> set (kept_names (fs w) b names)"
    and top: "\<forall>n\<in>set (kept_names (fs w) b names). n \<le> hi"
    and there: "fs_exists (fs w) (joinpath (joinpath b hi) artifact) = Inr True"
  shows "fst (find_extension_binary b w) = Inr (Some (joinpath (joinpath b hi) artifact))"
proof -
  let ?w3 = "w\<lparr>trace := trace w @ [Exists b, Iterdir b] @ map (\<lambda>n. IsDir (joinpath b n)) names\<rparr>"
  from rev_sort_greatest_first [OF hi top]
  obtain rest where "rev (sort (kept_names (fs w) b names)) = hi # rest" ..
  with find_extension_binary_kept [OF ex ls dirs]
  have "find_extension_binary b w = first_valid (joinpath b hi # map (joinpath b) rest) ?w3"
    by simp
  with there show ?thesis
    by (simp add: first_valid_Cons del: first_valid.simps)
qed

section \<open>The base directory is absent\<close>

lemma not_installed_absent:
  "fs_exists (fs (start (fs_of_disk id disk_not_installed))) base = Inr False"
  by (simp add: start_def fs_of_disk_def disk_lookup_def disk_not_installed_def base_def)

text \<open>
  Claim C4. When the base directory does not exist, \<open>_find_extension_binary\<close> returns
  \<open>None\<close> (NotFound) and does not raise. The one query it performs is the existence
  check of the base directory itself: nothing is listed and no candidate artifact is
  checked for existence.
\<close>

theorem absent_base_not_found:
  assumes "fs_exists (fs w) b = Inr False"
  shows "find_extension_binary b w = (Inr None, w\<lparr>trace := trace w @ [Exists b]\<rparr>)
    \<and> calls_made b w = [Exists b]"
proof -
  have r: "find_extension_binary b w = (Inr None, w\<lparr>trace := trace w @ [Exists b]\<rparr>)"
    using assms by (rule find_extension_binary_absent)
  then show ?thesis by (simp add: calls_made_def)
qed

text \<open>A home directory without a \<open>.duckdb\<close> directory: the base is absent.\<close>

theorem absent_base_not_found_witness:
  "fs_exists (fs (start (fs_of_disk id disk_not_installed))) base = Inr False \<and>
   find_extension_binary base (start (fs_of_disk id disk_not_installed)) =
     (Inr None, \<lparr>fs = fs_of_disk id disk_not_installed, trace = [Exists base]\<rparr>) \<and>
   calls_made base (start (fs_of_disk id disk_not_installed)) = [Exists base]"
  using absent_base_not_found [OF not_installed_absent] not_installed_absent
  by (simp add: start_def)

section \<open>Which version is returned\<close>

lemma startswith_v [simp]: "startswith (CHR ''v'' # s) ''v''"
  by (simp add: startswith_def)

text \<open>
  Claim C1, in the form that holds of the code. For a base directory that exists, whose
  listing and whose \<open>is_dir\<close> and existence checks all answer,
  \<open>_find_extension_binary\<close> walks the kept version subdirectories in descending
  lexicographic order of their names and returns the artifact-filename path inside the
  first one in which \<open>exists()\<close> answers True for that path: an entry of that name of any
  kind, since the check does not ask for a file. A path that is returned passed that
  check. With exactly the siblings \<open>v1.2.0\<close> and \<open>v1.3.0\<close>, both holding the artifact,
  the path under \<open>v1.3.0\<close> is returned.
\<close>

theorem resolve_first_in_descending_order:
  assumes ex: "fs_exists (fs w) b = Inr True"
    and ls: "fs_iterdir (fs w) b = Inr names"
    and dirs: "\<forall>n\<in>set names. \<exists>x. fs_is_dir (fs w) (joinpath b n) = Inr x"
    and probes: "\<forall>n\<in>set (kept_names (fs w) b names).
        \<exists>x. fs_exists (fs w) (joinpath (joinpath b n) artifact) = Inr x"
  shows "fst (find_extension_binary b w) = Inr (first_existing (fs w) b artifact names) \<and>
    (\<forall>p. fst (find_extension_binary b w) = Inr (Some p) \<longrightarrow> fs_exists (fs w) p = Inr True) \<and>
    (set names = {''v1.2.0'', ''v1.3.0''} \<and>
     fs_is_dir (fs w) (joinpath b ''v1.2.0'') = Inr True \<and>
     fs_is_dir (fs w) (joinpath b ''v1.3.0'') = Inr True \<and>
     fs_exists (fs w) (joinpath (joinpath b ''v1.2.0'') artifact) = Inr True \<and>
     fs_exists (fs w) (joinpath (joinpath b ''v1.3.0'') artifact) = Inr True \<longrightarrow>
     fst (find_extension_binary b w) = Inr (Some (joinpath (joinpath b ''v1.3.0'') artifact)))"
proof (intro conjI allI impI)
  show r: "fst (find_extension_binary b w) = Inr (first_existing (fs w) b artifact names)"
    using ex ls dirs probes by (rule find_extension_binary_answered)
  show "fs_exists (fs w) p = Inr True" if "fst (find_extension_binary b w) = Inr (Some p)" for p
  proof -
    from that r have "first_existing (fs w) b artifact names = Some p" by simp
    then obtain n where
      "find (\<lambda>n. fs_exists (fs w) (joinpath (joinpath b n) artifact) = Inr True)
         (rev (sort (kept_names (fs w) b names))) = Some n"
      and p: "p = joinpath (joinpath b n) artifact"
      by (auto simp: first_existing_def)
    then have "fs_exists (fs w) (joinpath (joinpath b n) artifact) = Inr True"
      by (auto simp: find_Some_iff)
    with p show ?thesis by simp
  qed
  show "fst (find_extension_binary b w) = Inr (Some (joinpath (joinpath b ''v1.3.0'') artifact))"
    if sib: "set names = {''v1.2.0'', ''v1.3.0''} \<and>
     fs_is_dir (fs w) (joinpath b ''v1.2.0'') = Inr True \<and>
     fs_is_dir (fs w) (joinpath b ''v1.3.0'') = Inr True \<and>
     fs_exists (fs w) (joinpath (joinpath b ''v1.2.0'') artifact) = Inr True \<and>
     fs_exists (fs w) (joinpath (joinpath b ''v1.3.0'') artifact) = Inr True"
  proof (rule find_extension_binary_greatest [OF ex ls dirs])
    from sib show "''v1.3.0'' \<in> set (kept_names (fs w) b names)"
      by (simp add: kept_names_def)
    from sib show "\<forall>n\<in>set (kept_names (fs w) b names). n \<le> ''v1.3.0''"
      by (auto simp: kept_names_def)
    from sib show "fs_exists (fs w) (joinpath (joinpath b ''v1.3.0'') artifact) = Inr True"
      by simp
  qed
qed

text \<open>The run on a disk with \<open>v1.2.0\<close> and \<open>v1.3.0\<close> installed.\<close>

lemma two_versions_facts:
  "fs_exists (fs (start (fs_of_disk id disk_two_versions))) base = Inr True"
  "fs_iterdir (fs (start (fs_of_disk id disk_two_versions))) base = Inr [''v1.2.0'', ''v1.3.0'']"
  "fs_is_dir (fs (start (fs_of_disk id disk_two_versions))) (joinpath base ''v1.2.0'') = Inr True"
  "fs_is_dir (fs (start (fs_of_disk id disk_two_versions))) (joinpath base ''v1.3.0'') = Inr True"
  "fs_exists (fs (start (fs_of_disk id disk_two_versions)))
     (joinpath (joinpath base ''v1.2.0'') artifact) = Inr True"
  "fs_exists (fs (start (fs_of_disk id disk_two_versions)))
     (joinpath (joinpath base ''v1.3.0'') artifact) = Inr True"
  by code_simp+

theorem resolve_first_in_descending_order_witness:
  "fs_exists (fs (start (fs_of_disk id disk_two_versions))) base = Inr True \<and>
   fs_iterdir (fs (start (fs_of_disk id disk_two_versions))) base = Inr [''v1.2.0'', ''v1.3.0''] \<and>
   fst (find_extension_binary base (start (fs_of_disk id disk_two_versions))) =
     Inr (Some (joinpath (joinpath base ''v1.3.0'') artifact)) \<and>
   first_existing (fs_of_disk id disk_two_versions) base artifact [''v1.2.0'', ''v1.3.0''] =
     Some (joinpath (joinpath base ''v1.3.0'') artifact) \<and>
   fs_exists (fs_of_disk id disk_two_versions) (joinpath (joinpath base ''v1.3.0'') artifact) =
     Inr True"
proof -
  let ?w = "start (fs_of_disk id disk_two_versions)"
  note f = two_versions_facts
  have dirs: "\<forall>n\<in>set [''v1.2.0'', ''v1.3.0'']. \<exists>x. fs_is_dir (fs ?w) (joinpath base n) = Inr x"
    using f(3,4) by auto
  have probes: "\<forall>n\<in>set (kept_names (fs ?w) base [''v1.2.0'', ''v1.3.0'']).
      \<exists>x. fs_exists (fs ?w) (joinpath (joinpath base n) artifact) = Inr x"
    using f(5,6) by (auto simp: kept_names_def)
  have sib: "set [''v1.2.0'', ''v1.3.0''] = {''v1.2.0'', ''v1.3.0''}" by simp
  from resolve_first_in_descending_order [OF f(1) f(2) dirs probes] sib f
  show ?thesis by (auto simp: start_def)
qed

text \<open>
  On a disk where \<open>v1.3.0\<close> holds a directory named like the artifact and \<open>v1.2.0\<close>
  holds the artifact file, the path returned is the directory under \<open>v1.3.0\<close>: it is
  not inside the first version directory in which the artifact file exists, which is
  \<open>v1.2.0\<close>.
\<close>

theorem artifact_directory_returned_counterexample:
  "fs_iterdir (fs_of_disk id disk_decoy_newest) base = Inr [''v1.2.0'', ''v1.3.0''] \<and>
   \<not> file_at (fs_of_disk id disk_decoy_newest) (joinpath (joinpath base ''v1.3.0'') artifact) \<and>
   file_at (fs_of_disk id disk_decoy_newest) (joinpath (joinpath base ''v1.2.0'') artifact) \<and>
   spec_resolve (fs_of_disk id disk_decoy_newest) base artifact [''v1.2.0'', ''v1.3.0''] =
     Some (joinpath (joinpath base ''v1.2.0'') artifact) \<and>
   fst (find_extension_binary base (start (fs_of_disk id disk_decoy_newest))) =
     Inr (Some (joinpath (joinpath base ''v1.3.0'') artifact))"
  by code_simp

section \<open>The order is textual\<close>

text \<open>
  Claim C2, in the form that holds of the code. The order \<open>_find_extension_binary\<close> walks is the descending
  order of plain string comparison of the names, not of version numbers. As strings,
  \<open>v1.10.0\<close> is less than \<open>v1.9.0\<close>, so in the descending walk \<open>v1.9.0\<close> comes first:
  for a base directory holding exactly the siblings \<open>v1.9.0\<close> and \<open>v1.10.0\<close>, both with
  the artifact, the path under \<open>v1.9.0\<close> is returned.
\<close>

theorem textual_order_returns_v1_9_0:
  assumes ex: "fs_exists (fs w) b = Inr True"
    and ls: "fs_iterdir (fs w) b = Inr names"
    and sib: "set names = {''v1.9.0'', ''v1.10.0''}"
    and d1: "fs_is_dir (fs w) (joinpath b ''v1.9.0'') = Inr True"
    and d2: "fs_is_dir (fs w) (joinpath b ''v1.10.0'') = Inr True"
    and a1: "fs_exists (fs w) (joinpath (joinpath b ''v1.9.0'') artifact) = Inr True"
    and a2: "fs_exists (fs w) (joinpath (joinpath b ''v1.10.0'') artifact) = Inr True"
  shows "fst (find_extension_binary b w) = Inr (Some (joinpath (joinpath b ''v1.9.0'') artifact)) \<and>
    sort_reverse (map (joinpath b) ns) = map (joinpath b) (rev (sort ns)) \<and>
    sort_reverse [joinpath b ''v1.10.0'', joinpath b ''v1.9.0''] =
      [joinpath b ''v1.9.0'', joinpath b ''v1.10.0''] \<and>
    ''v1.10.0'' < ''v1.9.0''"
proof (intro conjI)
  have dirs: "\<forall>n\<in>set names. \<exists>x. fs_is_dir (fs w) (joinpath b n) = Inr x"
    using sib d1 d2 by auto
  show "fst (find_extension_binary b w) = Inr (Some (joinpath (joinpath b ''v1.9.0'') artifact))"
  proof (rule find_extension_binary_greatest [OF ex ls dirs])
    from sib d1 show "''v1.9.0'' \<in> set (kept_names (fs w) b names)"
      by (simp add: kept_names_def)
    have sub: "set (kept_names (fs w) b names) \<subseteq> set names"
      unfolding kept_names_def by (rule filter_is_subset)
    show "\<forall>n\<in>set (kept_names (fs w) b names). n \<le> ''v1.9.0''"
    proof
      fix n
      assume "n \<in> set (kept_names (fs w) b names)"
      with sub sib have "n = ''v1.9.0'' \<or> n = ''v1.10.0''" by blast
      then show "n \<le> ''v1.9.0''" by (elim disjE) simp_all
    qed
    from a1 show "fs_exists (fs w) (joinpath (joinpath b ''v1.9.0'') artifact) = Inr True" .
  qed
  show "sort_reverse (map (joinpath b) ns) = map (joinpath b) (rev (sort ns))"
    by (rule sort_reverse_joinpath)
  have "sort_reverse (map (joinpath b) [''v1.10.0'', ''v1.9.0'']) =
      map (joinpath b) (rev (sort [''v1.10.0'', ''v1.9.0'']))"
    by (rule sort_reverse_joinpath)
  then show "sort_reverse [joinpath b ''v1.10.0'', joinpath b ''v1.9.0''] =
      [joinpath b ''v1.9.0'', joinpath b ''v1.10.0'']"
    by simp
  show "''v1.10.0'' < ''v1.9.0''" by simp
qed

text \<open>The run on a disk with \<open>v1.9.0\<close> and \<open>v1.10.0\<close> installed.\<close>

lemma textual_facts:
  "fs_exists (fs (start (fs_of_disk id disk_textual))) base = Inr True"
  "fs_iterdir (fs (start (fs_of_disk id disk_textual))) base = Inr [''v1.9.0'', ''v1.10.0'']"
  "fs_is_dir (fs (start (fs_of_disk id disk_textual))) (joinpath base ''v1.9.0'') = Inr True"
  "fs_is_dir (fs (start (fs_of_disk id disk_textual))) (joinpath base ''v1.10.0'') = Inr True"
  "fs_exists (fs (start (fs_of_disk id disk_textual)))
     (joinpath (joinpath base ''v1.9.0'') artifact) = Inr True"
  "fs_exists (fs (start (fs_of_disk id disk_textual)))
     (joinpath (joinpath base ''v1.10.0'') artifact) = Inr True"
  by code_simp+

theorem textual_order_returns_v1_9_0_witness:
  "fs_exists (fs_of_disk id disk_textual) base = Inr True \<and>
   fs_iterdir (fs_of_disk id disk_textual) base = Inr [''v1.9.0'', ''v1.10.0''] \<and>
   fs_is_dir (fs_of_disk id disk_textual) (joinpath base ''v1.9.0'') = Inr True \<and>
   fs_is_dir (fs_of_disk id disk_textual) (joinpath base ''v1.10.0'') = Inr True \<and>
   fs_exists (fs_of_disk id disk_textual) (joinpath (joinpath base ''v1.9.0'') artifact) = Inr True \<and>
   fs_exists (fs_of_disk id disk_textual) (joinpath (joinpath base ''v1.10.0'') artifact) = Inr True \<and>
   fst (find_extension_binary base (start (fs_of_disk id disk_textual))) =
     Inr (Some (joinpath (joinpath base ''v1.9.0'') artifact))"
proof -
  note f = textual_facts
  have sib: "set [''v1.9.0'', ''v1.10.0''] = {''v1.9.0'', ''v1.10.0''}" by simp
  from textual_order_returns_v1_9_0 [OF f(1) f(2) sib f(3) f(4) f(5) f(6)] f
  show ?thesis by (auto simp: start_def)
qed

text \<open>
  On that disk the path returned is the one under \<open>v1.9.0\<close>; it is not the one under
  \<open>v1.10.0\<close>, the name that comes first where \<open>v1.10.0\<close> sorts before \<open>v1.9.0\<close>.
\<close>

theorem textual_order_counterexample:
  "fst (find_extension_binary base (start (fs_of_disk id disk_textual))) =
     Inr (Some (joinpath (joinpath base ''v1.9.0'') artifact)) \<and>
   fst (find_extension_binary base (start (fs_of_disk id disk_textual))) \<noteq>
     Inr (Some (joinpath (joinpath base ''v1.10.0'') artifact))"
  by code_simp

section \<open>A version directory without the artifact\<close>

text \<open>
  Claim C3, in the form that holds of the code. A version directory in which
  \<open>exists()\<close> answers False for the artifact's name is passed over without an error,
  also when it is the first of the walk: the loop goes on with the rest of the list. With
  the siblings \<open>v2.0.0\<close>, which sorts first and holds no entry of that name, and
  \<open>v1.9.0\<close>, which holds the artifact, the path under \<open>v1.9.0\<close> is returned. A
  version directory in which \<open>exists()\<close> answers True for that name, file or
  directory, ends the walk: its path is returned.
\<close>

theorem newest_without_artifact_skipped:
  assumes ex: "fs_exists (fs w) b = Inr True"
    and ls: "fs_iterdir (fs w) b = Inr names"
    and sib: "set names = {''v2.0.0'', ''v1.9.0''}"
    and d1: "fs_is_dir (fs w) (joinpath b ''v2.0.0'') = Inr True"
    and d2: "fs_is_dir (fs w) (joinpath b ''v1.9.0'') = Inr True"
    and a1: "fs_exists (fs w) (joinpath (joinpath b ''v2.0.0'') artifact) = Inr False"
    and a2: "fs_exists (fs w) (joinpath (joinpath b ''v1.9.0'') artifact) = Inr True"
  shows "fst (find_extension_binary b w) = Inr (Some (joinpath (joinpath b ''v1.9.0'') artifact)) \<and>
    hd (rev (sort names)) = ''v2.0.0'' \<and>
    (\<forall>d ds v. fs_exists (fs v) (joinpath d artifact) = Inr False \<longrightarrow>
       fst (first_valid (d # ds) v) = fst (first_valid ds v)) \<and>
    (\<forall>d ds v. fs_exists (fs v) (joinpath d artifact) = Inr True \<longrightarrow>
       fst (first_valid (d # ds) v) = Inr (Some (joinpath d artifact)))"
proof (intro conjI allI impI)
  show "fst (first_valid (d # ds) v) = Inr (Some (joinpath d artifact))"
    if "fs_exists (fs v) (joinpath d artifact) = Inr True" for d ds v
    using that by (simp add: first_valid_Cons del: first_valid.simps)
  have dirs: "\<forall>n\<in>set names. \<exists>x. fs_is_dir (fs w) (joinpath b n) = Inr x"
    using sib d1 d2 by auto
  have kept: "set (kept_names (fs w) b names) = {''v2.0.0'', ''v1.9.0''}"
    using sib d1 d2 by (auto simp: kept_names_def)
  have probes: "\<forall>n\<in>set (kept_names (fs w) b names).
      \<exists>x. fs_exists (fs w) (joinpath (joinpath b n) artifact) = Inr x"
    using kept a1 a2 by auto
  let ?P = "\<lambda>n. fs_exists (fs w) (joinpath (joinpath b n) artifact) = Inr True"
  have "find ?P (rev (sort (kept_names (fs w) b names))) = Some ''v1.9.0''"
  proof (rule find_unique)
    show "''v1.9.0'' \<in> set (rev (sort (kept_names (fs w) b names)))" using kept by simp
    show "?P ''v1.9.0''" by (rule a2)
    show "\<forall>y\<in>set (rev (sort (kept_names (fs w) b names))). ?P y \<longrightarrow> y = ''v1.9.0''"
      using kept a1 by auto
  qed
  then have "first_existing (fs w) b artifact names = Some (joinpath (joinpath b ''v1.9.0'') artifact)"
    by (simp add: first_existing_def)
  with find_extension_binary_answered [OF ex ls dirs probes]
  show "fst (find_extension_binary b w) = Inr (Some (joinpath (joinpath b ''v1.9.0'') artifact))"
    by simp
  have "''v2.0.0'' \<in> set names" "\<forall>x\<in>set names. x \<le> ''v2.0.0''" using sib by auto
  from rev_sort_greatest_first [OF this] show "hd (rev (sort names)) = ''v2.0.0''" by auto
  show "fst (first_valid (d # ds) v) = fst (first_valid ds v)"
    if "fs_exists (fs v) (joinpath d artifact) = Inr False" for d ds v
  proof -
    let ?v1 = "v\<lparr>trace := trace v @ [Exists (joinpath d artifact)]\<rparr>"
    from that have "first_valid (d # ds) v = first_valid ds ?v1"
      by (simp add: first_valid_Cons del: first_valid.simps)
    moreover have "fst (first_valid ds ?v1) = fst (first_valid ds v)"
      by (rule first_valid_agree) simp
    ultimately show ?thesis by simp
  qed
qed

text \<open>The run on a disk where \<open>v2.0.0\<close> is an empty directory.\<close>

lemma newest_hollow_facts:
  "fs_exists (fs (start (fs_of_disk id disk_newest_hollow))) base = Inr True"
  "fs_iterdir (fs (start (fs_of_disk id disk_newest_hollow))) base = Inr [''v2.0.0'', ''v1.9.0'']"
  "fs_is_dir (fs (start (fs_of_disk id disk_newest_hollow))) (joinpath base ''v2.0.0'') = Inr True"
  "fs_is_dir (fs (start (fs_of_disk id disk_newest_hollow))) (joinpath base ''v1.9.0'') = Inr True"
  "fs_exists (fs (start (fs_of_disk id disk_newest_hollow)))
     (joinpath (joinpath base ''v2.0.0'') artifact) = Inr False"
  "fs_exists (fs (start (fs_of_disk id disk_newest_hollow)))
     (joinpath (joinpath base ''v1.9.0'') artifact) = Inr True"
  by code_simp+

theorem newest_without_artifact_skipped_witness:
  "fs_exists (fs_of_disk id disk_newest_hollow) base = Inr True \<and>
   fs_iterdir (fs_of_disk id disk_newest_hollow) base = Inr [''v2.0.0'', ''v1.9.0''] \<and>
   fs_is_dir (fs_of_disk id disk_newest_hollow) (joinpath base ''v2.0.0'') = Inr True \<and>
   fs_is_dir (fs_of_disk id disk_newest_hollow) (joinpath base ''v1.9.0'') = Inr True \<and>
   fs_exists (fs_of_disk id disk_newest_hollow) (joinpath (joinpath base ''v2.0.0'') artifact) = Inr False \<and>
   fs_exists (fs_of_disk id disk_newest_hollow) (joinpath (joinpath base ''v1.9.0'') artifact) = Inr True \<and>
   fst (find_extension_binary base (start (fs_of_disk id disk_newest_hollow))) =
     Inr (Some (joinpath (joinpath base ''v1.9.0'') artifact))"
proof -
  note f = newest_hollow_facts
  have sib: "set [''v2.0.0'', ''v1.9.0''] = {''v2.0.0'', ''v1.9.0''}" by simp
  from newest_without_artifact_skipped [OF f(1) f(2) sib f(3) f(4) f(5) f(6)] f
  show ?thesis by (auto simp: start_def)
qed

text \<open>
  A version directory that holds a directory named like the artifact contains no artifact
  file, and it is not passed over: with such a \<open>v2.0.0\<close> beside an installed
  \<open>v1.9.0\<close>, the path returned is the one under \<open>v2.0.0\<close>.
\<close>

theorem newest_with_directory_not_skipped_counterexample:
  "fs_iterdir (fs_of_disk id disk_decoy_skipped) base = Inr [''v2.0.0'', ''v1.9.0''] \<and>
   \<not> file_at (fs_of_disk id disk_decoy_skipped) (joinpath (joinpath base ''v2.0.0'') artifact) \<and>
   file_at (fs_of_disk id disk_decoy_skipped) (joinpath (joinpath base ''v1.9.0'') artifact) \<and>
   fst (find_extension_binary base (start (fs_of_disk id disk_decoy_skipped))) =
     Inr (Some (joinpath (joinpath base ''v2.0.0'') artifact)) \<and>
   fst (find_extension_binary base (start (fs_of_disk id disk_decoy_skipped))) \<noteq>
     Inr (Some (joinpath (joinpath base ''v1.9.0'') artifact))"
  by code_simp

section \<open>What the result depends on\<close>

lemma fst_rewrap:
  "fst (case p of (Inl e, u) \<Rightarrow> (Inl e, u) | (Inr r, u) \<Rightarrow> (Inr r, u)) = fst p"
  by (cases p) (simp split: sum.splits)

lemma version_dirs_of_skip:
  assumes "fs_is_dir (fs w) d = Inr False \<or>
      (fs_is_dir (fs w) d = Inr True \<and> \<not> startswith (name d) ''v'')"
  shows "fst (version_dirs_of (d # ds) w) =
      fst (version_dirs_of ds (w\<lparr>trace := trace w @ [IsDir d]\<rparr>))"
proof -
  let ?p = "version_dirs_of ds (w\<lparr>trace := trace w @ [IsDir d]\<rparr>)"
  from assms have "version_dirs_of (d # ds) w =
      (case ?p of (Inl e, u) \<Rightarrow> (Inl e, u) | (Inr r, u) \<Rightarrow> (Inr r, u))"
    by (auto simp: version_dirs_of_Cons simp del: version_dirs_of.simps
        split: prod.splits sum.splits)
  then show ?thesis by (simp only: fst_rewrap)
qed

lemma version_dirs_of_filter:
  assumes "fs_is_dir (fs v) = fs_is_dir (fs w)"
    and "\<forall>d\<in>set ds. \<not> Q d \<longrightarrow>
      (fs_is_dir (fs w) d = Inr False \<or>
       (fs_is_dir (fs w) d = Inr True \<and> \<not> startswith (name d) ''v''))"
  shows "fst (version_dirs_of (filter Q ds) v) = fst (version_dirs_of ds w)"
  using assms
proof (induction ds arbitrary: v w)
  case Nil
  then show ?case by simp
next
  case (Cons d ds)
  let ?v1 = "v\<lparr>trace := trace v @ [IsDir d]\<rparr>"
  let ?w1 = "w\<lparr>trace := trace w @ [IsDir d]\<rparr>"
  have rest: "\<forall>d\<in>set ds. \<not> Q d \<longrightarrow>
      (fs_is_dir (fs ?w1) d = Inr False \<or>
       (fs_is_dir (fs ?w1) d = Inr True \<and> \<not> startswith (name d) ''v''))"
    using Cons.prems(2) by simp
  show ?case
  proof (cases "Q d")
    case True
    have same: "fs_is_dir (fs ?v1) = fs_is_dir (fs ?w1)" using Cons.prems(1) by simp
    have ih: "fst (version_dirs_of (filter Q ds) ?v1) = fst (version_dirs_of ds ?w1)"
      using same rest by (rule Cons.IH)
    have here: "fs_is_dir (fs v) d = fs_is_dir (fs w) d" using Cons.prems(1) by simp
    obtain r1 u1 where p1: "version_dirs_of (filter Q ds) ?v1 = (r1, u1)"
      by (cases "version_dirs_of (filter Q ds) ?v1") blast
    obtain r2 u2 where p2: "version_dirs_of ds ?w1 = (r2, u2)"
      by (cases "version_dirs_of ds ?w1") blast
    from ih p1 p2 have "r1 = r2" by simp
    with True here p1 p2 show ?thesis
      by (simp add: version_dirs_of_Cons del: version_dirs_of.simps split: sum.splits)
  next
    case False
    with Cons.prems(2) have ex: "fs_is_dir (fs w) d = Inr False \<or>
        (fs_is_dir (fs w) d = Inr True \<and> \<not> startswith (name d) ''v'')"
      by simp
    have same: "fs_is_dir (fs v) = fs_is_dir (fs ?w1)" using Cons.prems(1) by simp
    have "fst (version_dirs_of (filter Q ds) v) = fst (version_dirs_of ds ?w1)"
      using same rest by (rule Cons.IH)
    with False version_dirs_of_skip [OF ex] show ?thesis by simp
  qed
qed

lemma find_extension_binary_listing:
  assumes e: "fs_exists (fs v) = fs_exists (fs w)"
    and d: "fs_is_dir (fs v) = fs_is_dir (fs w)"
    and l: "fs_iterdir (fs v) b =
      (case fs_iterdir (fs w) b of Inl e \<Rightarrow> Inl e | Inr names \<Rightarrow> Inr (filter Q names))"
    and q: "\<forall>n. \<not> Q n \<longrightarrow> excluded (fs w) b n"
  shows "fst (find_extension_binary b v) = fst (find_extension_binary b w)"
proof (cases "fs_exists (fs w) b")
  case (Inl err)
  then have "fs_exists (fs v) b = Inl err" using e by simp
  with Inl show ?thesis by (simp add: find_extension_binary_exists_error)
next
  case (Inr x)
  show ?thesis
  proof (cases x)
    case False
    with Inr have w0: "fs_exists (fs w) b = Inr False" by simp
    then have "fs_exists (fs v) b = Inr False" using e by simp
    with w0 show ?thesis by (simp add: find_extension_binary_absent)
  next
    case True
    with Inr have exw: "fs_exists (fs w) b = Inr True" by simp
    then have exv: "fs_exists (fs v) b = Inr True" using e by simp
    show ?thesis
    proof (cases "fs_iterdir (fs w) b")
      case (Inl err)
      with l have "fs_iterdir (fs v) b = Inl err" by simp
      with Inl exw exv show ?thesis by (simp add: find_extension_binary_iterdir_error)
    next
      case (Inr names)
      with l have lv: "fs_iterdir (fs v) b = Inr (filter Q names)" by simp
      let ?v2 = "v\<lparr>trace := trace v @ [Exists b, Iterdir b]\<rparr>"
      let ?w2 = "w\<lparr>trace := trace w @ [Exists b, Iterdir b]\<rparr>"
      let ?ds = "map (joinpath b) names"
      have shape: "map (joinpath b) (filter Q names) = filter (\<lambda>d. Q (name d)) ?ds"
        by (simp add: filter_map comp_def name_joinpath)
      have d2: "fs_is_dir (fs ?v2) = fs_is_dir (fs ?w2)" using d by simp
      have q2: "\<forall>d\<in>set ?ds. \<not> Q (name d) \<longrightarrow>
          (fs_is_dir (fs ?w2) d = Inr False \<or>
           (fs_is_dir (fs ?w2) d = Inr True \<and> \<not> startswith (name d) ''v''))"
        using q by (auto simp: excluded_def name_joinpath)
      have kept: "fst (version_dirs_of (filter (\<lambda>d. Q (name d)) ?ds) ?v2) =
          fst (version_dirs_of ?ds ?w2)"
        using d2 q2 by (rule version_dirs_of_filter)
      obtain rv v3 where pv: "version_dirs_of (filter (\<lambda>d. Q (name d)) ?ds) ?v2 = (rv, v3)"
        by (cases "version_dirs_of (filter (\<lambda>d. Q (name d)) ?ds) ?v2") blast
      obtain rw w3 where pw: "version_dirs_of ?ds ?w2 = (rw, w3)"
        by (cases "version_dirs_of ?ds ?w2") blast
      from kept pv pw have rr: "rv = rw" by simp
      have fv: "fs v3 = fs v" using version_dirs_of_fs [OF pv] by simp
      have fw: "fs w3 = fs w" using version_dirs_of_fs [OF pw] by simp
      have rv: "find_extension_binary b v =
          (case rv of Inl e \<Rightarrow> (Inl e, v3) | Inr vds \<Rightarrow> first_valid (sort_reverse vds) v3)"
        unfolding find_extension_binary_listed [OF exv lv] shape pv by simp
      have rw: "find_extension_binary b w =
          (case rw of Inl e \<Rightarrow> (Inl e, w3) | Inr vds \<Rightarrow> first_valid (sort_reverse vds) w3)"
        unfolding find_extension_binary_listed [OF exw Inr] pw by simp
      show ?thesis
      proof (cases rw)
        case (Inl err)
        with rr rv rw show ?thesis by simp
      next
        case (Inr vds)
        have "fst (first_valid (sort_reverse vds) v3) = fst (first_valid (sort_reverse vds) w3)"
          by (rule first_valid_agree) (simp add: fv fw e)
        with Inr rr rv rw show ?thesis by simp
      qed
    qed
  qed
qed

lemma find_extension_binary_agree:
  assumes "fs v = fs w"
  shows "fst (find_extension_binary b v) = fst (find_extension_binary b w)"
proof (rule find_extension_binary_listing [where Q = "\<lambda>n. True"])
  show "fs_exists (fs v) = fs_exists (fs w)" using assms by simp
  show "fs_is_dir (fs v) = fs_is_dir (fs w)" using assms by simp
  show "fs_iterdir (fs v) b =
      (case fs_iterdir (fs w) b of Inl e \<Rightarrow> Inl e
       | Inr names \<Rightarrow> Inr (filter (\<lambda>n. True) names))"
    using assms by (simp split: sum.splits)
  show "\<forall>n. \<not> True \<longrightarrow> excluded (fs w) b n" by simp
qed

section \<open>The queries of a run\<close>

lemma find_extension_binary_calls:
  assumes run: "find_extension_binary b w = (r, w')"
  shows "\<exists>cs. trace w' = trace w @ cs \<and>
     (\<forall>c\<in>set cs. c = Exists b \<or> c = Iterdir b \<or>
        (\<exists>n names. fs_iterdir (fs w) b = Inr names \<and> n \<in> set names \<and>
           (c = IsDir (joinpath b n) \<or>
            c = Exists (joinpath (joinpath b n) artifact) \<and>
            fs_is_dir (fs w) (joinpath b n) = Inr True \<and> startswith n ''v''))) \<and>
     (\<forall>c\<in>set cs. \<forall>e. call_error (fs w) c = Some e \<longrightarrow> r = Inl e) \<and>
     (\<forall>e. r = Inl e \<longrightarrow> (\<exists>c\<in>set cs. call_error (fs w) c = Some e))"
    (is "\<exists>cs. ?T cs \<and> ?S cs \<and> ?F cs \<and> ?E cs")
proof (cases "fs_exists (fs w) b")
  case (Inl err)
  from find_extension_binary_exists_error [OF Inl] run
  have "r = Inl err" "w' = w\<lparr>trace := trace w @ [Exists b]\<rparr>" by simp_all
  with Inl have "?T [Exists b]" "?S [Exists b]" "?F [Exists b]" "?E [Exists b]" by simp_all
  then show ?thesis by blast
next
  case (Inr x)
  show ?thesis
  proof (cases x)
    case False
    with Inr have w0: "fs_exists (fs w) b = Inr False" by simp
    from find_extension_binary_absent [OF w0] run
    have "r = Inr None" "w' = w\<lparr>trace := trace w @ [Exists b]\<rparr>" by simp_all
    with w0 have "?T [Exists b]" "?S [Exists b]" "?F [Exists b]" "?E [Exists b]" by simp_all
    then show ?thesis by blast
  next
    case True
    with Inr have ex: "fs_exists (fs w) b = Inr True" by simp
    show ?thesis
    proof (cases "fs_iterdir (fs w) b")
      case (Inl err)
      let ?cs = "[Exists b, Iterdir b]"
      from find_extension_binary_iterdir_error [OF ex Inl] run
      have "r = Inl err" "w' = w\<lparr>trace := trace w @ ?cs\<rparr>" by simp_all
      with ex Inl have "?T ?cs" "?S ?cs" "?F ?cs" "?E ?cs" by simp_all
      then show ?thesis by blast
    next
      case (Inr names)
      let ?w2 = "w\<lparr>trace := trace w @ [Exists b, Iterdir b]\<rparr>"
      let ?ds = "map (joinpath b) names"
      obtain r3 w3 where v: "version_dirs_of ?ds ?w2 = (r3, w3)"
        by (cases "version_dirs_of ?ds ?w2") blast
      have f3: "fs w3 = fs w" using version_dirs_of_fs [OF v] by simp
      from version_dirs_of_calls [OF v] obtain cs1 where
        t1: "trace w3 = trace ?w2 @ cs1" and s1: "set cs1 \<subseteq> IsDir ` set ?ds"
        and e1: "\<forall>c\<in>set cs1. \<forall>e. call_error (fs w) c = Some e \<longrightarrow> r3 = Inl e"
        and g1: "\<forall>e. r3 = Inl e \<longrightarrow> (\<exists>c\<in>set cs1. call_error (fs w) c = Some e)"
        by auto
      have pre: "call_error (fs w) (Exists b) = None" "call_error (fs w) (Iterdir b) = None"
        using ex Inr by simp_all
      have S1: "\<forall>c\<in>set cs1. \<exists>n names. fs_iterdir (fs w) b = Inr names \<and> n \<in> set names \<and>
          c = IsDir (joinpath b n)"
        using s1 Inr by auto
      have e: "find_extension_binary b w =
          (case r3 of Inl e \<Rightarrow> (Inl e, w3) | Inr vds \<Rightarrow> first_valid (sort_reverse vds) w3)"
        unfolding find_extension_binary_listed [OF ex Inr] v by simp
      show ?thesis
      proof (cases r3)
        case (Inl err)
        let ?cs = "[Exists b, Iterdir b] @ cs1"
        from Inl e run have rw: "r = Inl err" "w' = w3" by simp_all
        have "?T ?cs" using t1 rw by simp
        moreover have "?S ?cs" using S1 by auto
        moreover have "?F ?cs" using e1 pre Inl rw by auto
        moreover have "?E ?cs" using g1 Inl rw by auto
        ultimately show ?thesis by blast
      next
        case (Inr vds)
        with e run have fv: "first_valid (sort_reverse vds) w3 = (r, w')" by simp
        from Inr v have vds: "vds = filter (\<lambda>d. fs_is_dir (fs w) d = Inr True \<and>
            startswith (name d) ''v'') ?ds"
          using version_dirs_of_result [of ?ds ?w2 vds w3] by simp
        from first_valid_calls [OF fv] obtain cs2 where
          t2: "trace w' = trace w3 @ cs2"
          and s2: "set cs2 \<subseteq> (\<lambda>d. Exists (joinpath d artifact)) ` set (sort_reverse vds)"
          and e2: "\<forall>c\<in>set cs2. \<forall>e. call_error (fs w) c = Some e \<longrightarrow> r = Inl e"
          and g2: "\<forall>e. r = Inl e \<longrightarrow> (\<exists>c\<in>set cs2. call_error (fs w) c = Some e)"
          unfolding f3 by auto
        have quiet: "\<forall>c\<in>set cs1. call_error (fs w) c = None"
        proof
          fix c
          assume "c \<in> set cs1"
          with e1 Inr show "call_error (fs w) c = None"
            by (cases "call_error (fs w) c") auto
        qed
        have S2: "\<forall>c\<in>set cs2. \<exists>n names. fs_iterdir (fs w) b = Inr names \<and> n \<in> set names \<and>
            c = Exists (joinpath (joinpath b n) artifact) \<and>
            fs_is_dir (fs w) (joinpath b n) = Inr True \<and> startswith n ''v''"
        proof
          fix c
          assume "c \<in> set cs2"
          with s2 obtain d where d: "d \<in> set vds" and c: "c = Exists (joinpath d artifact)"
            by (auto simp: sort_reverse_def)
          from d vds obtain n where "n \<in> set names" "d = joinpath b n"
            "fs_is_dir (fs w) (joinpath b n) = Inr True" "startswith n ''v''"
            by (auto simp: name_joinpath)
          with c \<open>fs_iterdir (fs w) b = Inr names\<close>
          show "\<exists>n names. fs_iterdir (fs w) b = Inr names \<and> n \<in> set names \<and>
            c = Exists (joinpath (joinpath b n) artifact) \<and>
            fs_is_dir (fs w) (joinpath b n) = Inr True \<and> startswith n ''v''"
            by blast
        qed
        let ?cs = "[Exists b, Iterdir b] @ cs1 @ cs2"
        have "?T ?cs" using t1 t2 by simp
        moreover have "?S ?cs"
        proof
          fix c
          assume "c \<in> set ?cs"
          then consider "c = Exists b" | "c = Iterdir b" | "c \<in> set cs1" | "c \<in> set cs2"
            by auto
          then show "c = Exists b \<or> c = Iterdir b \<or>
            (\<exists>n names. fs_iterdir (fs w) b = Inr names \<and> n \<in> set names \<and>
              (c = IsDir (joinpath b n) \<or>
               c = Exists (joinpath (joinpath b n) artifact) \<and>
               fs_is_dir (fs w) (joinpath b n) = Inr True \<and> startswith n ''v''))"
          proof cases
            case 3
            with S1 show ?thesis by blast
          next
            case 4
            with S2 show ?thesis by blast
          qed simp_all
        qed
        moreover have "?F ?cs"
        proof (intro ballI allI impI)
          fix c e
          assume "c \<in> set ?cs" and ce: "call_error (fs w) c = Some e"
          then consider "c = Exists b" | "c = Iterdir b" | "c \<in> set cs1" | "c \<in> set cs2"
            by auto
          then show "r = Inl e"
          proof cases
            case 1 with pre ce show ?thesis by simp
          next
            case 2 with pre ce show ?thesis by simp
          next
            case 3 with quiet ce show ?thesis by simp
          next
            case 4 with e2 ce show ?thesis by blast
          qed
        qed
        moreover have "?E ?cs" using g2 by auto
        ultimately show ?thesis by blast
      qed
    qed
  qed
qed

lemma calls_made_eq:
  assumes "find_extension_binary b w = (r, w')" and "trace w' = trace w @ cs"
  shows "calls_made b w = cs"
  using assms by (simp add: calls_made_def)

section \<open>No version directory holds the artifact\<close>

text \<open>
  Claim C5, in the form that holds of the code. For a base directory that exists and
  whose listing and \<open>is_dir\<close> checks answer, \<open>_find_extension_binary\<close> returns
  \<open>None\<close> (NotFound) and does not raise when \<open>exists()\<close> answers False for the
  artifact's name in every kept version subdirectory; in particular when no child is a
  directory and when the base directory is empty.
\<close>

theorem no_artifact_not_found:
  assumes ex: "fs_exists (fs w) b = Inr True"
    and ls: "fs_iterdir (fs w) b = Inr names"
    and dirs: "\<forall>n\<in>set names. \<exists>x. fs_is_dir (fs w) (joinpath b n) = Inr x"
  shows "((\<forall>n\<in>set (kept_names (fs w) b names).
            fs_exists (fs w) (joinpath (joinpath b n) artifact) = Inr False) \<longrightarrow>
          fst (find_extension_binary b w) = Inr None) \<and>
    ((\<forall>n\<in>set names. fs_is_dir (fs w) (joinpath b n) = Inr False) \<longrightarrow>
          fst (find_extension_binary b w) = Inr None) \<and>
    (names = [] \<longrightarrow> fst (find_extension_binary b w) = Inr None)"
proof -
  have main: "fst (find_extension_binary b w) = Inr None"
    if none: "\<forall>n\<in>set (kept_names (fs w) b names).
        fs_exists (fs w) (joinpath (joinpath b n) artifact) = Inr False"
  proof -
    from none have probes: "\<forall>n\<in>set (kept_names (fs w) b names).
        \<exists>x. fs_exists (fs w) (joinpath (joinpath b n) artifact) = Inr x"
      by blast
    have "find (\<lambda>n. fs_exists (fs w) (joinpath (joinpath b n) artifact) = Inr True)
        (rev (sort (kept_names (fs w) b names))) = None"
      by (rule find_none) (simp add: none)
    then have "first_existing (fs w) b artifact names = None"
      by (simp add: first_existing_def)
    with find_extension_binary_answered [OF ex ls dirs probes] show ?thesis by simp
  qed
  have nodirs: "fst (find_extension_binary b w) = Inr None"
    if "\<forall>n\<in>set names. fs_is_dir (fs w) (joinpath b n) = Inr False"
  proof (rule main)
    from that have "kept_names (fs w) b names = []"
      by (simp add: kept_names_def)
    then show "\<forall>n\<in>set (kept_names (fs w) b names).
        fs_exists (fs w) (joinpath (joinpath b n) artifact) = Inr False"
      by simp
  qed
  have "fst (find_extension_binary b w) = Inr None" if "names = []"
    by (rule nodirs) (simp add: that)
  with main nodirs show ?thesis by blast
qed

text \<open>
  The runs on a disk with two empty version directories and on a disk whose base
  directory is empty.
\<close>

lemma no_artifact_facts:
  "fs_exists (fs (start (fs_of_disk id disk_no_artifact))) base = Inr True"
  "fs_iterdir (fs (start (fs_of_disk id disk_no_artifact))) base = Inr [''v1.0.0'', ''v1.1.0'']"
  "fs_is_dir (fs (start (fs_of_disk id disk_no_artifact))) (joinpath base ''v1.0.0'') = Inr True"
  "fs_is_dir (fs (start (fs_of_disk id disk_no_artifact))) (joinpath base ''v1.1.0'') = Inr True"
  "fs_exists (fs (start (fs_of_disk id disk_no_artifact)))
     (joinpath (joinpath base ''v1.0.0'') artifact) = Inr False"
  "fs_exists (fs (start (fs_of_disk id disk_no_artifact)))
     (joinpath (joinpath base ''v1.1.0'') artifact) = Inr False"
  "fs_exists (fs (start (fs_of_disk id disk_empty_base))) base = Inr True"
  "fs_iterdir (fs (start (fs_of_disk id disk_empty_base))) base = Inr []"
  by code_simp+

theorem no_artifact_not_found_witness:
  "fs_exists (fs_of_disk id disk_no_artifact) base = Inr True \<and>
   fs_iterdir (fs_of_disk id disk_no_artifact) base = Inr [''v1.0.0'', ''v1.1.0''] \<and>
   kept_names (fs_of_disk id disk_no_artifact) base [''v1.0.0'', ''v1.1.0''] =
     [''v1.0.0'', ''v1.1.0''] \<and>
   fst (find_extension_binary base (start (fs_of_disk id disk_no_artifact))) = Inr None \<and>
   fs_exists (fs_of_disk id disk_empty_base) base = Inr True \<and>
   fs_iterdir (fs_of_disk id disk_empty_base) base = Inr [] \<and>
   fst (find_extension_binary base (start (fs_of_disk id disk_empty_base))) = Inr None"
proof -
  let ?w = "start (fs_of_disk id disk_no_artifact)"
  let ?u = "start (fs_of_disk id disk_empty_base)"
  note f = no_artifact_facts
  have dirs: "\<forall>n\<in>set [''v1.0.0'', ''v1.1.0'']. \<exists>x. fs_is_dir (fs ?w) (joinpath base n) = Inr x"
    using f(3,4) by auto
  have kept: "kept_names (fs ?w) base [''v1.0.0'', ''v1.1.0''] = [''v1.0.0'', ''v1.1.0'']"
    using f(3,4) by (simp add: kept_names_def)
  have none: "\<forall>n\<in>set (kept_names (fs ?w) base [''v1.0.0'', ''v1.1.0'']).
      fs_exists (fs ?w) (joinpath (joinpath base n) artifact) = Inr False"
    unfolding kept using f(5,6) by simp
  have r1: "fst (find_extension_binary base ?w) = Inr None"
    using no_artifact_not_found [OF f(1) f(2) dirs] none by blast
  have r2: "fst (find_extension_binary base ?u) = Inr None"
    using no_artifact_not_found [OF f(7) f(8)] by simp
  from r1 r2 kept f show ?thesis by (simp add: start_def)
qed

text \<open>
  A base directory whose one version directory holds a directory named like the artifact
  contains no artifact file, and the result is that directory's path, not \<open>None\<close>.
\<close>

theorem artifact_directory_found_counterexample:
  "fs_iterdir (fs_of_disk id disk_decoy_only) base = Inr [''v1.0.0''] \<and>
   kept_names (fs_of_disk id disk_decoy_only) base [''v1.0.0''] = [''v1.0.0''] \<and>
   \<not> file_at (fs_of_disk id disk_decoy_only) (joinpath (joinpath base ''v1.0.0'') artifact) \<and>
   spec_resolve (fs_of_disk id disk_decoy_only) base artifact [''v1.0.0''] = None \<and>
   fst (find_extension_binary base (start (fs_of_disk id disk_decoy_only))) =
     Inr (Some (joinpath (joinpath base ''v1.0.0'') artifact)) \<and>
   fst (find_extension_binary base (start (fs_of_disk id disk_decoy_only))) \<noteq> Inr None"
  by code_simp

section \<open>Children that are left out\<close>










section \<open>Failures of the filesystem\<close>

text \<open>
  Claim C7, in the form that holds of the code. \<open>_find_extension_binary\<close> does not
  raise when the extension is not installed: for an absent base directory it returns
  \<open>None\<close>. It raises only when one of its filesystem queries raises, and then with that
  query's exception: an exception of \<open>exists()\<close>, \<open>iterdir()\<close> or \<open>is_dir()\<close>, such
  as \<open>PermissionError\<close>, is never caught and never turned into \<open>None\<close>. A failure of
  \<open>stat\<close> that \<open>exists()\<close> itself answers as False (\<open>ENOENT\<close>, \<open>ENOTDIR\<close>,
  \<open>EBADF\<close>, \<open>ELOOP\<close>) is no exception: for the base directory it gives \<open>None\<close>.
\<close>

theorem io_failure_propagates:
  "(fs_exists (fs w) b = Inr False \<longrightarrow> fst (find_extension_binary b w) = Inr None) \<and>
   (\<forall>c\<in>set (calls_made b w). \<forall>e. call_error (fs w) c = Some e \<longrightarrow>
      fst (find_extension_binary b w) = Inl e) \<and>
   (\<forall>e. fst (find_extension_binary b w) = Inl e \<longrightarrow>
      (\<exists>c\<in>set (calls_made b w). call_error (fs w) c = Some e)) \<and>
   (\<forall>os e. fs w = fs_of_os os \<and> os_stat os b = Inl e \<and> ignored_errno e \<longrightarrow>
      fst (find_extension_binary b w) = Inr None)"
proof -
  have ignored: "fst (find_extension_binary b w) = Inr None"
    if "fs w = fs_of_os os \<and> os_stat os b = Inl e \<and> ignored_errno e" for os e
  proof -
    from that have "fs_exists (fs w) b = Inr False"
      by (simp add: fs_of_os_def pathlib_exists_def)
    then show ?thesis by (simp add: find_extension_binary_absent)
  qed
  obtain r w' where run: "find_extension_binary b w = (r, w')"
    by (cases "find_extension_binary b w") blast
  from find_extension_binary_calls [OF run] obtain cs where
    t: "trace w' = trace w @ cs"
    and f: "\<forall>c\<in>set cs. \<forall>e. call_error (fs w) c = Some e \<longrightarrow> r = Inl e"
    and g: "\<forall>e. r = Inl e \<longrightarrow> (\<exists>c\<in>set cs. call_error (fs w) c = Some e)"
    by blast
  have cm: "calls_made b w = cs" using run t by (rule calls_made_eq)
  have "fs_exists (fs w) b = Inr False \<longrightarrow> fst (find_extension_binary b w) = Inr None"
    by (simp add: find_extension_binary_absent)
  moreover have "\<forall>c\<in>set (calls_made b w). \<forall>e. call_error (fs w) c = Some e \<longrightarrow>
      fst (find_extension_binary b w) = Inl e"
    using f run cm by simp
  moreover have "\<forall>e. fst (find_extension_binary b w) = Inl e \<longrightarrow>
      (\<exists>c\<in>set (calls_made b w). call_error (fs w) c = Some e)"
    using g run cm by simp
  ultimately show ?thesis using ignored by blast
qed

text \<open>
  The runs on a filesystem where listing the base directory is denied, on one where
  \<open>stat\<close> of the base directory fails with \<open>EACCES\<close>, and on one where it fails with
  \<open>ELOOP\<close>.
\<close>

lemma listing_denied_facts:
  "calls_made base (start fs_listing_denied) = [Exists base, Iterdir base]"
  "call_error (fs (start fs_listing_denied)) (Iterdir base) = Some (PermissionError base)"
  "calls_made base (start (fs_of_os os_denied)) = [Exists base]"
  "call_error (fs (start (fs_of_os os_denied))) (Exists base) = Some (PermissionError base)"
  "os_stat os_denied base = Inl EACCES"
  "os_stat os_loop base = Inl ELOOP"
  "ignored_errno ELOOP"
  by code_simp+

theorem io_failure_propagates_witness:
  "calls_made base (start fs_listing_denied) = [Exists base, Iterdir base] \<and>
   call_error (fs (start fs_listing_denied)) (Iterdir base) = Some (PermissionError base) \<and>
   fst (find_extension_binary base (start fs_listing_denied)) = Inl (PermissionError base) \<and>
   fst (find_extension_binary base (start fs_listing_denied)) \<noteq> Inr None \<and>
   os_stat os_denied base = Inl EACCES \<and>
   fst (find_extension_binary base (start (fs_of_os os_denied))) = Inl (PermissionError base) \<and>
   os_stat os_loop base = Inl ELOOP \<and> ignored_errno ELOOP \<and>
   fst (find_extension_binary base (start (fs_of_os os_loop))) = Inr None"
proof -
  let ?w = "start fs_listing_denied"
  let ?d = "start (fs_of_os os_denied)"
  let ?l = "start (fs_of_os os_loop)"
  note f = listing_denied_facts
  have "Iterdir base \<in> set (calls_made base ?w)" by (simp add: f(1))
  with io_failure_propagates [of ?w base] f(2)
  have a: "fst (find_extension_binary base ?w) = Inl (PermissionError base)" by blast
  have "Exists base \<in> set (calls_made base ?d)" by (simp add: f(3))
  with io_failure_propagates [of ?d base] f(4)
  have b: "fst (find_extension_binary base ?d) = Inl (PermissionError base)" by blast
  have "fs ?l = fs_of_os os_loop" by (simp add: start_def)
  with io_failure_propagates [of ?l base] f(6) f(7)
  have c: "fst (find_extension_binary base ?l) = Inr None" by blast
  from a b c f show ?thesis by simp
qed

text \<open>
  A base directory that is a symbolic link to itself: \<open>stat\<close> fails with \<open>ELOOP\<close>,
  \<open>exists()\<close> answers False, and the result is \<open>None\<close>, not an error.
\<close>

theorem symlink_loop_not_found_counterexample:
  "os_stat os_loop base = Inl ELOOP \<and>
   fs_exists (fs_of_os os_loop) base = Inr False \<and>
   fst (find_extension_binary base (start (fs_of_os os_loop))) = Inr None"
  by code_simp

section \<open>The filesystem is only read\<close>

lemma find_extension_binary_frame: "fs (snd (find_extension_binary b w)) = fs w"
  by (rule find_extension_binary_fs [of b w "fst (find_extension_binary b w)"]) simp

text \<open>
  Claim C10. \<open>_find_extension_binary\<close> has no side effect on the filesystem: the
  filesystem after a call is the filesystem before it. All the call does is to add its
  queries to the record of queries, each an existence check, a listing of the base
  directory or an \<open>is_dir\<close> check.
\<close>

theorem resolver_only_reads:
  "fs (snd (find_extension_binary b w)) = fs w \<and>
   trace (snd (find_extension_binary b w)) = trace w @ calls_made b w \<and>
   list_all (\<lambda>c. c = Exists b \<or> c = Iterdir b \<or>
      (\<exists>n. c = IsDir (joinpath b n) \<or> c = Exists (joinpath (joinpath b n) artifact)))
     (calls_made b w)"
proof -
  obtain r w' where run: "find_extension_binary b w = (r, w')"
    by (cases "find_extension_binary b w") blast
  from find_extension_binary_calls [OF run] obtain cs where
    t: "trace w' = trace w @ cs"
    and s: "\<forall>c\<in>set cs. c = Exists b \<or> c = Iterdir b \<or>
        (\<exists>n names. fs_iterdir (fs w) b = Inr names \<and> n \<in> set names \<and>
           (c = IsDir (joinpath b n) \<or>
            c = Exists (joinpath (joinpath b n) artifact) \<and>
            fs_is_dir (fs w) (joinpath b n) = Inr True \<and> startswith n ''v''))"
    by blast
  have cm: "calls_made b w = cs" using run t by (rule calls_made_eq)
  have "fs (snd (find_extension_binary b w)) = fs w" by (rule find_extension_binary_frame)
  moreover have "trace (snd (find_extension_binary b w)) = trace w @ calls_made b w"
    using run t cm by simp
  moreover have "list_all (\<lambda>c. c = Exists b \<or> c = Iterdir b \<or>
      (\<exists>n. c = IsDir (joinpath b n) \<or> c = Exists (joinpath (joinpath b n) artifact)))
     (calls_made b w)"
    unfolding cm list_all_iff using s by blast
  ultimately show ?thesis by blast
qed

text \<open>The run on the disk with the left-out children.\<close>

theorem resolver_only_reads_witness:
  "fs (snd (find_extension_binary base (start (fs_of_disk id disk_mixed)))) =
     fs_of_disk id disk_mixed \<and>
   trace (snd (find_extension_binary base (start (fs_of_disk id disk_mixed)))) =
     calls_made base (start (fs_of_disk id disk_mixed))"
  using resolver_only_reads [of base "start (fs_of_disk id disk_mixed)"]
  by (simp add: start_def)

section \<open>Repeated calls\<close>

lemma repeated_calls_frame:
  "fs (((\<lambda>v. snd (find_extension_binary b v)) ^^ k) w) = fs w"
  by (induction k) (simp_all add: find_extension_binary_frame)

text \<open>
  Claim C9. The result of \<open>_find_extension_binary\<close> is a function of the filesystem
  and the base directory alone, so on an unchanged filesystem every further call returns
  what the first call returned. With exactly one version directory \<open>v1.4.3\<close>, holding
  the artifact, every call returns the path under it.
\<close>

theorem resolve_idempotent:
  "fst (find_extension_binary b (((\<lambda>v. snd (find_extension_binary b v)) ^^ k) w)) =
     fst (find_extension_binary b w) \<and>
   (fs v = fs w \<longrightarrow> fst (find_extension_binary b v) = fst (find_extension_binary b w)) \<and>
   (fs_exists (fs w) b = Inr True \<and> fs_iterdir (fs w) b = Inr [''v1.4.3''] \<and>
    fs_is_dir (fs w) (joinpath b ''v1.4.3'') = Inr True \<and>
    fs_exists (fs w) (joinpath (joinpath b ''v1.4.3'') artifact) = Inr True \<longrightarrow>
    fst (find_extension_binary b (((\<lambda>v. snd (find_extension_binary b v)) ^^ k) w)) =
      Inr (Some (joinpath (joinpath b ''v1.4.3'') artifact)))"
proof (intro conjI impI)
  let ?again = "((\<lambda>v. snd (find_extension_binary b v)) ^^ k) w"
  show rep: "fst (find_extension_binary b ?again) = fst (find_extension_binary b w)"
    by (rule find_extension_binary_agree) (rule repeated_calls_frame)
  show "fst (find_extension_binary b v) = fst (find_extension_binary b w)" if "fs v = fs w"
    using that by (rule find_extension_binary_agree)
  show "fst (find_extension_binary b ?again) =
      Inr (Some (joinpath (joinpath b ''v1.4.3'') artifact))"
    if h: "fs_exists (fs w) b = Inr True \<and> fs_iterdir (fs w) b = Inr [''v1.4.3''] \<and>
      fs_is_dir (fs w) (joinpath b ''v1.4.3'') = Inr True \<and>
      fs_exists (fs w) (joinpath (joinpath b ''v1.4.3'') artifact) = Inr True"
  proof -
    from h have ex: "fs_exists (fs w) b = Inr True"
      and ls: "fs_iterdir (fs w) b = Inr [''v1.4.3'']"
      and dir: "fs_is_dir (fs w) (joinpath b ''v1.4.3'') = Inr True"
      and art: "fs_exists (fs w) (joinpath (joinpath b ''v1.4.3'') artifact) = Inr True"
      by blast+
    have dirs: "\<forall>n\<in>set [''v1.4.3'']. \<exists>x. fs_is_dir (fs w) (joinpath b n) = Inr x"
      using dir by auto
    have kept: "kept_names (fs w) b [''v1.4.3''] = [''v1.4.3'']"
      using dir by (simp add: kept_names_def)
    have mem: "''v1.4.3'' \<in> set (kept_names (fs w) b [''v1.4.3''])"
      unfolding kept by simp
    have top: "\<forall>n\<in>set (kept_names (fs w) b [''v1.4.3'']). n \<le> ''v1.4.3''"
      unfolding kept by simp
    have "fst (find_extension_binary b w) =
        Inr (Some (joinpath (joinpath b ''v1.4.3'') artifact))"
      using ex ls dirs mem top art by (rule find_extension_binary_greatest)
    then show ?thesis by (simp only: rep)
  qed
qed

text \<open>Three calls in a row on a disk with \<open>v1.4.3\<close> installed.\<close>

lemma single_facts:
  "fs_exists (fs (start (fs_of_disk id disk_single))) base = Inr True"
  "fs_iterdir (fs (start (fs_of_disk id disk_single))) base = Inr [''v1.4.3'']"
  "fs_is_dir (fs (start (fs_of_disk id disk_single))) (joinpath base ''v1.4.3'') = Inr True"
  "fs_exists (fs (start (fs_of_disk id disk_single)))
     (joinpath (joinpath base ''v1.4.3'') artifact) = Inr True"
  by code_simp+

theorem resolve_idempotent_witness:
  "fs_exists (fs_of_disk id disk_single) base = Inr True \<and>
   fs_iterdir (fs_of_disk id disk_single) base = Inr [''v1.4.3''] \<and>
   fs_is_dir (fs_of_disk id disk_single) (joinpath base ''v1.4.3'') = Inr True \<and>
   fs_exists (fs_of_disk id disk_single) (joinpath (joinpath base ''v1.4.3'') artifact) = Inr True \<and>
   fst (find_extension_binary base
     (snd (find_extension_binary base
       (snd (find_extension_binary base (start (fs_of_disk id disk_single))))))) =
     Inr (Some (joinpath (joinpath base ''v1.4.3'') artifact))"
proof -
  let ?w = "start (fs_of_disk id disk_single)"
  note f = single_facts
  from resolve_idempotent [of base 2 ?w ?w] f
  have "fst (find_extension_binary base (((\<lambda>v. snd (find_extension_binary base v)) ^^ 2) ?w)) =
      Inr (Some (joinpath (joinpath base ''v1.4.3'') artifact))"
    by blast
  then have "fst (find_extension_binary base
     (snd (find_extension_binary base (snd (find_extension_binary base ?w))))) =
     Inr (Some (joinpath (joinpath base ''v1.4.3'') artifact))"
    by (simp add: numeral_2_eq_2)
  with f show ?thesis by (simp add: start_def)
qed

section \<open>The fallback of \<open>get_duckdb_connection\<close>\<close>

lemma fallback_path_components:
  "fallback_path home = home @ [''.duckdb'', ''extensions'', ''stps'', ''v1.4.3'', ''stps.duckdb_extension'']"
  by (simp add: fallback_path_def extensions_base_of_def joinpath_def)

lemma load_extension_not_missing: "load_extension drv database p \<noteq> Inl (ExtensionNotFound q)"
  by (simp add: load_extension_def split: load_outcome.splits)

text \<open>
  Claim C8. When auto-detection finds nothing, \<open>get_duckdb_connection\<close> does not fail
  at once: it checks the hard-coded path
  \<open><home>/.duckdb/extensions/stps/v1.4.3/stps.duckdb_extension\<close>, loads that file if it
  exists, and raises \<open>FileNotFoundError\<close> only if it does not exist either.
\<close>

theorem fallback_after_not_found:
  assumes conn: "drv_connect drv database"
    and nf: "fst (find_extension_binary (extensions_base_of home) w) = Inr None"
  shows "fst (get_duckdb_connection drv home database w) =
      (case fs_exists (fs w) (fallback_path home) of
         Inl e \<Rightarrow> Inl (Propagated e)
       | Inr True \<Rightarrow> load_extension drv database (fallback_path home)
       | Inr False \<Rightarrow> Inl (ExtensionNotFound (fallback_path home))) \<and>
    fallback_path home =
      home @ [''.duckdb'', ''extensions'', ''stps'', ''v1.4.3'', ''stps.duckdb_extension''] \<and>
    (\<forall>p. fst (get_duckdb_connection drv home database w) = Inl (ExtensionNotFound p) \<longrightarrow>
       fs_exists (fs w) (fallback_path home) = Inr False)"
proof -
  obtain w1 where run: "find_extension_binary (extensions_base_of home) w = (Inr None, w1)"
    using nf by (cases "find_extension_binary (extensions_base_of home) w") simp
  have f1: "fs w1 = fs w" using run by (rule find_extension_binary_fs)
  have main: "fst (get_duckdb_connection drv home database w) =
      (case fs_exists (fs w) (fallback_path home) of
         Inl e \<Rightarrow> Inl (Propagated e)
       | Inr True \<Rightarrow> load_extension drv database (fallback_path home)
       | Inr False \<Rightarrow> Inl (ExtensionNotFound (fallback_path home)))"
    using conn run f1
    by (simp add: get_duckdb_connection_def path_exists_def Let_def
        split: sum.splits bool.splits)
  have only: "fs_exists (fs w) (fallback_path home) = Inr False"
    if "fst (get_duckdb_connection drv home database w) = Inl (ExtensionNotFound p)" for p
  proof (cases "fs_exists (fs w) (fallback_path home)")
    case (Inl e)
    with main that show ?thesis by simp
  next
    case (Inr x)
    show ?thesis
    proof (cases x)
      case True
      with Inr main that have "load_extension drv database (fallback_path home) =
          Inl (ExtensionNotFound p)" by simp
      then show ?thesis by (simp add: load_extension_not_missing)
    next
      case False
      with Inr show ?thesis by simp
    qed
  qed
  from main only fallback_path_components show ?thesis by blast
qed

text \<open>
  On a filesystem that does not tell upper case from lower case, a version directory
  written \<open>V1.4.3\<close> is not kept by auto-detection, whose test for the prefix \<open>v\<close> is
  case-sensitive, and yet the hard-coded path names the artifact in it.
\<close>

lemma capital_facts:
  "drv_connect driver_ok '':memory:''"
  "fst (find_extension_binary (extensions_base_of home_u)
     (start (fs_of_disk ascii_lower disk_capital))) = Inr None"
  "fs_exists (fs (start (fs_of_disk ascii_lower disk_capital))) (fallback_path home_u) = Inr True"
  "load_extension driver_ok '':memory:'' (fallback_path home_u) =
     Inr \<lparr>conn_database = '':memory:'', conn_extension = fallback_path home_u\<rparr>"
  "fs_exists (fs (start (fs_of_disk id disk_empty_base))) (fallback_path home_u) = Inr False"
  "fst (find_extension_binary (extensions_base_of home_u)
     (start (fs_of_disk id disk_empty_base))) = Inr None"
  by code_simp+

theorem fallback_after_not_found_witness:
  "drv_connect driver_ok '':memory:'' \<and>
   fst (find_extension_binary (extensions_base_of home_u)
     (start (fs_of_disk ascii_lower disk_capital))) = Inr None \<and>
   fs_exists (fs_of_disk ascii_lower disk_capital) (fallback_path home_u) = Inr True \<and>
   fst (get_duckdb_connection driver_ok home_u '':memory:''
     (start (fs_of_disk ascii_lower disk_capital))) =
     Inr \<lparr>conn_database = '':memory:'', conn_extension = fallback_path home_u\<rparr> \<and>
   fst (find_extension_binary (extensions_base_of home_u)
     (start (fs_of_disk id disk_empty_base))) = Inr None \<and>
   fs_exists (fs_of_disk id disk_empty_base) (fallback_path home_u) = Inr False \<and>
   fst (get_duckdb_connection driver_ok home_u '':memory:''
     (start (fs_of_disk id disk_empty_base))) = Inl (ExtensionNotFound (fallback_path home_u))"
proof -
  note f = capital_facts
  from fallback_after_not_found [OF f(1) f(2)] f(3) f(4)
  have a: "fst (get_duckdb_connection driver_ok home_u '':memory:''
     (start (fs_of_disk ascii_lower disk_capital))) =
     Inr \<lparr>conn_database = '':memory:'', conn_extension = fallback_path home_u\<rparr>"
    by simp
  from fallback_after_not_found [OF f(1) f(6)] f(5)
  have b: "fst (get_duckdb_connection driver_ok home_u '':memory:''
     (start (fs_of_disk id disk_empty_base))) = Inl (ExtensionNotFound (fallback_path home_u))"
    by simp
  from a b f show ?thesis by (simp add: start_def)
qed

end
